theory Spec2Isabelle
  imports Main
begin

section \<open>The ndarray class template of ndarray.h\<close>

text \<open>
  The header defines \<^verbatim>\<open>template <typename dtype, int D> class ndarray\<close>, a dense array of
  fixed rank \<open>D\<close> that owns three heap buffers through raw pointers: \<^verbatim>\<open>_shape\<close>
  (\<open>D\<close> extents), \<^verbatim>\<open>_stride\<close> (\<open>D + 1\<close> strides) and \<^verbatim>\<open>head\<close> (the elements).
  The embedding keeps the pointers: an object is a record of three pointers, the buffers
  live in an explicit store, and every member function takes the store and the address of
  the object it is called on and returns the new store.  The rank \<open>D\<close> is a parameter of
  each function that mentions it.
\<close>

subsection \<open>The 32-bit integer \<^verbatim>\<open>size_t = int32_t\<close>\<close>

text \<open>
  The class redefines \<^verbatim>\<open>size_t\<close> as \<^verbatim>\<open>int32_t\<close>.  Values are modelled as integers and
  every arithmetic result on offsets and strides is brought back into the 32-bit range by
  \<open>i32\<close>, the two's complement wrap-around (signed overflow is undefined in C++; the
  wrap-around is what the usual targets compute).  Division and remainder truncate
  towards zero.  Index expressions built from loop counters are bounded by \<open>D + 1\<close> and
  are computed exactly.
\<close>

definition i32 :: "int \<Rightarrow> int" where
  "i32 x = (x + 2147483648) mod 4294967296 - 2147483648"

definition tdiv :: "int \<Rightarrow> int \<Rightarrow> int" where
  "tdiv a b = sgn a * sgn b * (\<bar>a\<bar> div \<bar>b\<bar>)"

definition tmod :: "int \<Rightarrow> int \<Rightarrow> int" where
  "tmod a b = sgn a * (\<bar>a\<bar> mod \<bar>b\<bar>)"

subsection \<open>Abnormal outcomes\<close>

text \<open>
  A run that does not return normally ends in one of these: undefined behaviour of a
  memory access (null pointer, freed buffer, index out of range, read of an uninitialised
  integer), a division by zero, the exception of an array \<^verbatim>\<open>new\<close> with a negative
  length, or \<^verbatim>\<open>exit(0)\<close> after a diagnostic on \<^verbatim>\<open>cerr\<close>.
\<close>

datatype halt =
    NullDeref
  | Dangling
  | OutOfBounds
  | Uninit
  | DivByZero
  | BadArrayLength
  | Exit string

definition bnd :: "halt + 'x \<Rightarrow> ('x \<Rightarrow> halt + 'y) \<Rightarrow> halt + 'y" where
  "bnd m f = (case m of Inl e \<Rightarrow> Inl e | Inr v \<Rightarrow> f v)"

text \<open>
  \<^verbatim>\<open>for (i = 0; i < n; i++) body\<close> with a bound that the body does not change: the first
  \<open>n\<close> iterations are the first \<open>n - 1\<close> followed by the body at \<open>n - 1\<close>.
\<close>

fun for_loop :: "nat \<Rightarrow> (nat \<Rightarrow> 's \<Rightarrow> halt + 's) \<Rightarrow> 's \<Rightarrow> halt + 's" where
  "for_loop 0 body s = Inr s"
| "for_loop (Suc n) body s = bnd (for_loop n body s) (body n)"

definition cdiv :: "int \<Rightarrow> int \<Rightarrow> halt + int" where
  "cdiv a b = (if b = 0 then Inl DivByZero else Inr (i32 (tdiv a b)))"

definition cmod :: "int \<Rightarrow> int \<Rightarrow> halt + int" where
  "cmod a b = (if b = 0 then Inl DivByZero else Inr (tmod a b))"

subsection \<open>Members that do not build\<close>

text \<open>
  A member function of a class template is instantiated when a program first uses it, and
  every declaration and expression of its body is resolved then, whatever path a call
  would take.  The outcome is \<open>Ill_formed\<close> with the diagnostic (no program that uses the
  member builds, so the member has no runs) or \<open>Builds f\<close>, the function \<open>f\<close> of its runs.
\<close>

datatype 'x build = Ill_formed string | Builds 'x

definition then_build :: "'x build \<Rightarrow> ('x \<Rightarrow> 'y build) \<Rightarrow> 'y build" where
  "then_build m f = (case m of Ill_formed e \<Rightarrow> Ill_formed e | Builds v \<Rightarrow> f v)"

text \<open>
  Binding a reference to an lvalue: a reference to a non-const array cannot be bound to a
  const one.
\<close>

datatype constness = Mutable | Const

definition bind_lref :: "constness \<Rightarrow> constness \<Rightarrow> unit build" where
  "bind_lref ref ob =
     (if ref = Mutable \<and> ob = Const
      then Ill_formed ''binding reference of type ndarray& to const ndarray discards qualifiers''
      else Builds ())"

subsection \<open>Objects and the store\<close>

text \<open>
  A pointer is \<open>None\<close> (\<^verbatim>\<open>nullptr\<close>) or the address of a buffer.  Buffers of
  \<^verbatim>\<open>size_t\<close> and buffers of \<^verbatim>\<open>dtype\<close> are kept in two maps over one address space;
  a cell is \<open>None\<close> until it is first written (\<^verbatim>\<open>new T[n]\<close> does not initialise).
  \<open>objs\<close> holds the live \<^verbatim>\<open>ndarray\<close> objects by address, so that \<^verbatim>\<open>this != &x\<close> is a
  comparison of addresses.  \<open>brk\<close> is the next address the allocator hands out.
\<close>

record ndarray =
  shape_ptr :: "nat option"
  stride_ptr :: "nat option"
  head :: "nat option"

record 'a store =
  ints :: "nat \<Rightarrow> int option list option"
  vals :: "nat \<Rightarrow> 'a option list option"
  objs :: "nat \<Rightarrow> ndarray option"
  brk :: nat

definition null_nd :: ndarray where
  "null_nd = \<lparr>shape_ptr = None, stride_ptr = None, head = None\<rparr>"

definition new_ints :: "nat \<Rightarrow> 'a store \<Rightarrow> nat \<times> 'a store" where
  "new_ints n st =
     (brk st, st\<lparr>ints := (ints st)(brk st \<mapsto> replicate n None), brk := Suc (brk st)\<rparr>)"

definition new_vals :: "int \<Rightarrow> 'a store \<Rightarrow> halt + nat \<times> 'a store" where
  "new_vals n st =
     (if n < 0 then Inl BadArrayLength
      else Inr (brk st, st\<lparr>vals := (vals st)(brk st \<mapsto> replicate (nat n) None),
                              brk := Suc (brk st)\<rparr>))"

definition new_obj :: "'a store \<Rightarrow> nat \<times> 'a store" where
  "new_obj st = (brk st, st\<lparr>brk := Suc (brk st)\<rparr>)"

definition ld_int :: "'a store \<Rightarrow> nat option \<Rightarrow> nat \<Rightarrow> halt + int" where
  "ld_int st p i =
     (case p of None \<Rightarrow> Inl NullDeref
      | Some a \<Rightarrow>
          (case ints st a of None \<Rightarrow> Inl Dangling
           | Some b \<Rightarrow>
               if i < length b
               then (case b ! i of None \<Rightarrow> Inl Uninit | Some v \<Rightarrow> Inr v)
               else Inl OutOfBounds))"

definition st_int :: "'a store \<Rightarrow> nat option \<Rightarrow> nat \<Rightarrow> int \<Rightarrow> halt + 'a store" where
  "st_int st p i v =
     (case p of None \<Rightarrow> Inl NullDeref
      | Some a \<Rightarrow>
          (case ints st a of None \<Rightarrow> Inl Dangling
           | Some b \<Rightarrow>
               if i < length b
               then Inr (st\<lparr>ints := (ints st)(a \<mapsto> b[i := Some v])\<rparr>)
               else Inl OutOfBounds))"

definition ld_int_at :: "'a store \<Rightarrow> nat option \<Rightarrow> int \<Rightarrow> halt + int" where
  "ld_int_at st p i = (if i < 0 then Inl OutOfBounds else ld_int st p (nat i))"

definition st_int_at :: "'a store \<Rightarrow> nat option \<Rightarrow> int \<Rightarrow> int \<Rightarrow> halt + 'a store" where
  "st_int_at st p i v = (if i < 0 then Inl OutOfBounds else st_int st p (nat i) v)"

definition ld_val :: "'a store \<Rightarrow> nat option \<Rightarrow> nat \<Rightarrow> halt + 'a option" where
  "ld_val st p i =
     (case p of None \<Rightarrow> Inl NullDeref
      | Some a \<Rightarrow>
          (case vals st a of None \<Rightarrow> Inl Dangling
           | Some b \<Rightarrow> if i < length b then Inr (b ! i) else Inl OutOfBounds))"

definition st_val :: "'a store \<Rightarrow> nat option \<Rightarrow> nat \<Rightarrow> 'a option \<Rightarrow> halt + 'a store" where
  "st_val st p i c =
     (case p of None \<Rightarrow> Inl NullDeref
      | Some a \<Rightarrow>
          (case vals st a of None \<Rightarrow> Inl Dangling
           | Some b \<Rightarrow>
               if i < length b
               then Inr (st\<lparr>vals := (vals st)(a \<mapsto> b[i := c])\<rparr>)
               else Inl OutOfBounds))"

definition ld_val_at :: "'a store \<Rightarrow> nat option \<Rightarrow> int \<Rightarrow> halt + 'a option" where
  "ld_val_at st p i = (if i < 0 then Inl OutOfBounds else ld_val st p (nat i))"

definition st_val_at :: "'a store \<Rightarrow> nat option \<Rightarrow> int \<Rightarrow> 'a option \<Rightarrow> halt + 'a store" where
  "st_val_at st p i c = (if i < 0 then Inl OutOfBounds else st_val st p (nat i) c)"

text \<open>\<^verbatim>\<open>delete []\<close>: nothing on a null pointer, undefined on a buffer that is not live.\<close>

definition delete_ints :: "'a store \<Rightarrow> nat option \<Rightarrow> halt + 'a store" where
  "delete_ints st p =
     (case p of None \<Rightarrow> Inr st
      | Some a \<Rightarrow>
          (case ints st a of None \<Rightarrow> Inl Dangling
           | Some b \<Rightarrow> Inr (st\<lparr>ints := (ints st)(a := None)\<rparr>)))"

definition delete_vals :: "'a store \<Rightarrow> nat option \<Rightarrow> halt + 'a store" where
  "delete_vals st p =
     (case p of None \<Rightarrow> Inr st
      | Some a \<Rightarrow>
          (case vals st a of None \<Rightarrow> Inl Dangling
           | Some b \<Rightarrow> Inr (st\<lparr>vals := (vals st)(a := None)\<rparr>)))"

text \<open>An array passed by the caller through a \<^verbatim>\<open>const size_t *\<close>.\<close>

definition arr_at :: "int list \<Rightarrow> nat \<Rightarrow> halt + int" where
  "arr_at xs i = (if i < length xs then Inr (xs ! i) else Inl OutOfBounds)"

text \<open>\<^verbatim>\<open>std::copy(begin(l), end(l), p)\<close> into a buffer of integers.\<close>

definition std_copy :: "'a store \<Rightarrow> int list \<Rightarrow> nat option \<Rightarrow> halt + 'a store" where
  "std_copy st l p =
     (case p of None \<Rightarrow> (if l = [] then Inr st else Inl NullDeref)
      | Some a \<Rightarrow>
          (case ints st a of None \<Rightarrow> Inl Dangling
           | Some b \<Rightarrow>
               if length l \<le> length b
               then Inr (st\<lparr>ints := (ints st)(a \<mapsto> map Some l @ drop (length l) b)\<rparr>)
               else Inl OutOfBounds))"

text \<open>\<^verbatim>\<open>std::swap\<close> on two \<^verbatim>\<open>size_t\<close> cells of one buffer.\<close>

definition swap_int :: "'a store \<Rightarrow> nat option \<Rightarrow> int \<Rightarrow> int \<Rightarrow> halt + 'a store" where
  "swap_int st p i j =
     bnd (ld_int_at st p i) (\<lambda>a.
     bnd (ld_int_at st p j) (\<lambda>b.
     bnd (st_int_at st p i b) (\<lambda>st1.
     st_int_at st1 p j a)))"

definition obj :: "'a store \<Rightarrow> nat \<Rightarrow> halt + ndarray" where
  "obj st self = (case objs st self of None \<Rightarrow> Inl Dangling | Some a \<Rightarrow> Inr a)"

definition put_obj :: "'a store \<Rightarrow> nat \<Rightarrow> ndarray \<Rightarrow> 'a store" where
  "put_obj st self a = st\<lparr>objs := (objs st)(self \<mapsto> a)\<rparr>"

subsection \<open>Accessors\<close>

definition empty_nd :: "'a store \<Rightarrow> nat \<Rightarrow> halt + bool" where
  "empty_nd st self = bnd (obj st self) (\<lambda>a. Inr (stride_ptr a = None))"

definition size_nd :: "'a store \<Rightarrow> nat \<Rightarrow> halt + int" where
  "size_nd st self = bnd (obj st self) (\<lambda>a. ld_int st (stride_ptr a) 0)"

definition shape :: "'a store \<Rightarrow> nat \<Rightarrow> int \<Rightarrow> halt + int" where
  "shape st self i = bnd (obj st self) (\<lambda>a. ld_int_at st (shape_ptr a) i)"

definition stride :: "'a store \<Rightarrow> nat \<Rightarrow> int \<Rightarrow> halt + int" where
  "stride st self i = bnd (obj st self) (\<lambda>a. ld_int_at st (stride_ptr a) (i + 1))"

text \<open>\<^verbatim>\<open>operator[]\<close> returns a reference: reading it and assigning through it.\<close>

definition at_raw :: "'a store \<Rightarrow> nat \<Rightarrow> int \<Rightarrow> halt + 'a option" where
  "at_raw st self rawind = bnd (obj st self) (\<lambda>a. ld_val_at st (head a) rawind)"

definition set_raw :: "'a store \<Rightarrow> nat \<Rightarrow> int \<Rightarrow> 'a \<Rightarrow> halt + 'a store" where
  "set_raw st self rawind v =
     bnd (obj st self) (\<lambda>a. st_val_at st (head a) rawind (Some v))"

subsection \<open>Construction and destruction\<close>

definition dtor :: "'a store \<Rightarrow> nat \<Rightarrow> halt + 'a store" where
  "dtor st self =
     bnd (obj st self) (\<lambda>a.
     bnd (delete_vals st (head a)) (\<lambda>st1.
     bnd (delete_ints st1 (shape_ptr a)) (\<lambda>st2.
     bnd (delete_ints st2 (stride_ptr a)) (\<lambda>st3.
     Inr (st3\<lparr>objs := (objs st3)(self := None)\<rparr>)))))"


definition check :: "nat \<Rightarrow> 'a store \<Rightarrow> nat option \<Rightarrow> halt + unit" where
  "check D st sp =
     for_loop D (\<lambda>i u.
       bnd (ld_int st sp i) (\<lambda>v.
       if v \<le> 0 then Inl (Exit ''Error: Positive shape needed!'') else Inr u)) ()"

definition ctor_width :: "nat \<Rightarrow> 'a store \<Rightarrow> nat \<Rightarrow> int \<Rightarrow> halt + 'a store" where
  "ctor_width D st self width =
     (let (sp, st1) = new_ints D st; (tp, st2) = new_ints (Suc D) st1 in
      bnd (st_int st2 (Some tp) D 1) (\<lambda>st3.
      bnd (for_loop D (\<lambda>i s.
             bnd (st_int s (Some sp) i width) (\<lambda>s1.
             bnd (ld_int s1 (Some tp) (D - i)) (\<lambda>t.
             st_int s1 (Some tp) (D - i - 1) (i32 (t * width))))) st3) (\<lambda>st4.
      bnd (check D st4 (Some sp)) (\<lambda>u.
      bnd (ld_int st4 (Some tp) 0) (\<lambda>n.
      bnd (new_vals n st4) (\<lambda>(hp, st5).
      Inr (put_obj st5 self
             \<lparr>shape_ptr = Some sp, stride_ptr = Some tp, head = Some hp\<rparr>)))))))"

definition ctor_array :: "nat \<Rightarrow> 'a store \<Rightarrow> nat \<Rightarrow> int list \<Rightarrow> halt + 'a store" where
  "ctor_array D st self sh =
     (let (sp, st1) = new_ints D st; (tp, st2) = new_ints (Suc D) st1 in
      bnd (st_int st2 (Some tp) D 1) (\<lambda>st3.
      bnd (for_loop D (\<lambda>i s.
             bnd (arr_at sh i) (\<lambda>v.
             bnd (st_int s (Some sp) i v) (\<lambda>s1.
             bnd (ld_int s1 (Some tp) (D - i)) (\<lambda>t.
             bnd (arr_at sh (D - i - 1)) (\<lambda>e.
             st_int s1 (Some tp) (D - i - 1) (i32 (t * e))))))) st3) (\<lambda>st4.
      bnd (check D st4 (Some sp)) (\<lambda>u.
      bnd (ld_int st4 (Some tp) 0) (\<lambda>n.
      bnd (new_vals n st4) (\<lambda>(hp, st5).
      Inr (put_obj st5 self
             \<lparr>shape_ptr = Some sp, stride_ptr = Some tp, head = Some hp\<rparr>)))))))"

definition ctor_list :: "nat \<Rightarrow> 'a store \<Rightarrow> nat \<Rightarrow> int list \<Rightarrow> halt + 'a store" where
  "ctor_list D st self l =
     (let (sp, st1) = new_ints D st; (tp, st2) = new_ints (Suc D) st1 in
      if length l \<noteq> D then Inl (Exit ''Initialization of shape failed.'')
      else
      bnd (std_copy st2 l (Some sp)) (\<lambda>st3.
      bnd (st_int st3 (Some tp) D 1) (\<lambda>st4.
      bnd (for_loop D (\<lambda>i s.
             bnd (ld_int s (Some tp) (D - i)) (\<lambda>t.
             bnd (ld_int s (Some sp) (D - i - 1)) (\<lambda>e.
             st_int s (Some tp) (D - i - 1) (i32 (t * e))))) st4) (\<lambda>st5.
      bnd (check D st5 (Some sp)) (\<lambda>u.
      bnd (ld_int st5 (Some tp) 0) (\<lambda>n.
      bnd (new_vals n st5) (\<lambda>(hp, st6).
      Inr (put_obj st6 self
             \<lparr>shape_ptr = Some sp, stride_ptr = Some tp, head = Some hp\<rparr>))))))))"

text \<open>
  The constructor template of line 105, \<^verbatim>\<open>ndarray(const ndarray<T, D> & x)\<close>.  The elements
  of every array are values of the one type \<open>'a\<close>; \<open>conv\<close> is the implicit conversion from
  \<^verbatim>\<open>T\<close> to \<^verbatim>\<open>dtype\<close> that \<^verbatim>\<open>head[i] = x[i]\<close> applies to the element it reads.  The bound
  \<^verbatim>\<open>size()\<close> of the element loop reads \<^verbatim>\<open>_stride[0]\<close>, which the loop body does not write.
\<close>

definition copy_ctor ::
  "nat \<Rightarrow> ('a \<Rightarrow> 'a) \<Rightarrow> 'a store \<Rightarrow> nat \<Rightarrow> nat \<Rightarrow> halt + 'a store" where
  "copy_ctor D conv st self x =
     bnd (empty_nd st x) (\<lambda>e.
     if e then Inr (put_obj st self null_nd)
     else
       (let (sp, st1) = new_ints D st; (tp, st2) = new_ints (Suc D) st1 in
        bnd (for_loop D (\<lambda>i s.
               bnd (shape s x (int i)) (\<lambda>v.
               bnd (st_int s (Some sp) i v) (\<lambda>s1.
               bnd (stride s1 x (int i)) (\<lambda>w.
               st_int s1 (Some tp) (i + 1) w)))) st2) (\<lambda>st3.
        bnd (size_nd st3 x) (\<lambda>n.
        bnd (st_int st3 (Some tp) 0 n) (\<lambda>st4.
        bnd (size_nd st4 x) (\<lambda>m.
        bnd (new_vals m st4) (\<lambda>(hp, st5).
        bnd (ld_int st5 (Some tp) 0) (\<lambda>k.
        bnd (for_loop (nat k) (\<lambda>i s.
               bnd (at_raw s x (int i)) (\<lambda>c.
               st_val s (Some hp) i (map_option conv c))) st5) (\<lambda>st6.
        Inr (put_obj st6 self
               \<lparr>shape_ptr = Some sp, stride_ptr = Some tp, head = Some hp\<rparr>))))))))))"

definition move_ctor :: "'a store \<Rightarrow> nat \<Rightarrow> nat \<Rightarrow> halt + 'a store" where
  "move_ctor st self x =
     bnd (obj st x) (\<lambda>b.
     Inr (put_obj
            (put_obj st self
               \<lparr>shape_ptr = shape_ptr b, stride_ptr = stride_ptr b, head = head b\<rparr>)
            x null_nd))"

text \<open>
  Move assignment swaps the three pointers of \<^verbatim>\<open>*this\<close> and \<^verbatim>\<open>x\<close>; when both are
  one object every swap is of a member with itself.
\<close>

definition move_assign :: "'a store \<Rightarrow> nat \<Rightarrow> nat \<Rightarrow> halt + 'a store" where
  "move_assign st self x =
     bnd (obj st self) (\<lambda>a.
     bnd (obj st x) (\<lambda>b.
     Inr (put_obj
            (put_obj st self
               \<lparr>shape_ptr = shape_ptr b, stride_ptr = stride_ptr b, head = head b\<rparr>)
            x \<lparr>shape_ptr = shape_ptr a, stride_ptr = stride_ptr a, head = head a\<rparr>)))"

text \<open>
  \<^verbatim>\<open>std::swap\<close> on two arrays: \<^verbatim>\<open>T tmp(std::move(a)); a = std::move(b); b = std::move(tmp);\<close>
  and the end of \<^verbatim>\<open>tmp\<close>.
\<close>

definition std_swap :: "'a store \<Rightarrow> nat \<Rightarrow> nat \<Rightarrow> halt + 'a store" where
  "std_swap st a b =
     (let (t, st0) = new_obj st in
      bnd (move_ctor st0 t a) (\<lambda>st1.
      bnd (move_assign st1 a b) (\<lambda>st2.
      bnd (move_assign st2 b t) (\<lambda>st3.
      dtor st3 t))))"

text \<open>
  Initialising an \<^verbatim>\<open>ndarray<dtype, D>\<close> from one array.  The class declares two constructors
  that take an array, the template of line 105 and the move constructor of line 122, and
  no copy constructor: a constructor template is never a copy constructor, so
  \<^verbatim>\<open>ndarray(const ndarray &)\<close> is declared implicitly, and it is defined as deleted because
  the class declares a move constructor and a move assignment.  A deleted function takes
  part in overload resolution all the same.

  \<open>binds c same_type cat\<close>: the parameter of the candidate \<open>c\<close> binds, with no conversion
  of the array, an argument of category \<open>cat\<close> whose element type is \<^verbatim>\<open>dtype\<close> (\<open>same_type\<close>)
  or another type: \<^verbatim>\<open>const ndarray<dtype, D> &\<close> binds every array of the same element
  type, \<^verbatim>\<open>ndarray<dtype, D> &&\<close> the rvalues among them, and \<^verbatim>\<open>const ndarray<T, D> &\<close> with
  \<^verbatim>\<open>T\<close> deduced binds every array.  Among the candidates that bind the argument, an rvalue
  reference is preferred for an rvalue and a non-template is preferred to the
  specialisation of a template with the same parameter type; \<open>select_ctor\<close> lists the
  candidates in this order and takes the first that binds.  A program that selects the
  deleted constructor is ill-formed.
\<close>

datatype category = Lvalue | Rvalue

datatype ctor = Move_122 | Template_105

datatype candidate = Deleted_copy | Declared ctor

fun binds :: "candidate \<Rightarrow> bool \<Rightarrow> category \<Rightarrow> bool" where
  "binds Deleted_copy same_type cat = same_type"
| "binds (Declared Move_122) same_type cat = (same_type \<and> cat = Rvalue)"
| "binds (Declared Template_105) same_type cat = True"

definition select_ctor :: "bool \<Rightarrow> category \<Rightarrow> ctor build" where
  "select_ctor same_type cat =
     (case filter (\<lambda>c. binds c same_type cat)
             [Declared Move_122, Deleted_copy, Declared Template_105] of
        [] \<Rightarrow> Ill_formed ''no matching constructor''
      | Deleted_copy # cs \<Rightarrow> Ill_formed ''use of deleted function ndarray(const ndarray&)''
      | Declared c # cs \<Rightarrow> Builds c)"

definition run_ctor ::
  "ctor \<Rightarrow> nat \<Rightarrow> ('a \<Rightarrow> 'a) \<Rightarrow> 'a store \<Rightarrow> nat \<Rightarrow> nat \<Rightarrow> halt + 'a store" where
  "run_ctor c D conv st self x =
     (case c of Move_122 \<Rightarrow> move_ctor st self x | Template_105 \<Rightarrow> copy_ctor D conv st self x)"

text \<open>
  \<^verbatim>\<open>ndarray<dtype, D> b(x);\<close> and \<^verbatim>\<open>ndarray<dtype, D> b = x;\<close> for an array \<open>x\<close> whose element
  type is \<^verbatim>\<open>dtype\<close> (\<open>same_type\<close>) or another type.
\<close>

definition construct ::
  "bool \<Rightarrow> category \<Rightarrow>
   (nat \<Rightarrow> ('a \<Rightarrow> 'a) \<Rightarrow> 'a store \<Rightarrow> nat \<Rightarrow> nat \<Rightarrow> halt + 'a store) build" where
  "construct same_type cat = then_build (select_ctor same_type cat) (\<lambda>c. Builds (run_ctor c))"

text \<open>
  \<^verbatim>\<open>operator=(const ndarray<dtype, D> & x)\<close>, lines 131 to 137.  Line 133,
  \<^verbatim>\<open>ndarray<dtype, D> copy = x;\<close>, initialises from an lvalue of the same element type.
\<close>

definition copy_assign :: "(nat \<Rightarrow> 'a store \<Rightarrow> nat \<Rightarrow> nat \<Rightarrow> halt + 'a store) build" where
  "copy_assign =
     then_build (select_ctor True Lvalue) (\<lambda>c.
     Builds (\<lambda>D st self x.
       if self \<noteq> x
       then (let (cp, st0) = new_obj st in
             bnd (run_ctor c D id st0 cp x) (\<lambda>st1.
             bnd (std_swap st1 self cp) (\<lambda>st2.
             dtor st2 cp)))
       else Inr st))"

definition fill :: "'a store \<Rightarrow> nat \<Rightarrow> 'a \<Rightarrow> halt + 'a store" where
  "fill st self val =
     bnd (empty_nd st self) (\<lambda>e.
     if e then Inr st
     else
       bnd (size_nd st self) (\<lambda>n.
       bnd (obj st self) (\<lambda>a.
       for_loop (nat n) (\<lambda>i s. st_val s (head a) i (Some val)) st)))"

subsection \<open>Indexing\<close>

definition offset_coo :: "nat \<Rightarrow> 'a store \<Rightarrow> nat \<Rightarrow> int list \<Rightarrow> halt + int" where
  "offset_coo D st self coo =
     bnd (obj st self) (\<lambda>a.
     for_loop D (\<lambda>i off.
       bnd (arr_at coo i) (\<lambda>c.
       bnd (ld_int st (stride_ptr a) (i + 1)) (\<lambda>s.
       Inr (i32 (off + i32 (c * s)))))) 0)"

definition at_coo :: "nat \<Rightarrow> 'a store \<Rightarrow> nat \<Rightarrow> int list \<Rightarrow> halt + 'a option" where
  "at_coo D st self coo =
     bnd (offset_coo D st self coo) (\<lambda>off.
     bnd (obj st self) (\<lambda>a. ld_val_at st (head a) off))"

text \<open>
  The parameter pack of \<^verbatim>\<open>adder\<close> is never empty: it is its first argument and the rest.
  The pointer \<^verbatim>\<open>p\<close> into the stride buffer is the buffer and an index.
\<close>

fun adder :: "'a store \<Rightarrow> nat option \<Rightarrow> nat \<Rightarrow> int \<Rightarrow> int list \<Rightarrow> halt + int" where
  "adder st p k final [] = bnd (ld_int st p k) (\<lambda>s. Inr (i32 (s * final)))"
| "adder st p k first (a # args) =
     bnd (ld_int st p k) (\<lambda>s.
     bnd (adder st p (k + 1) a args) (\<lambda>r.
     Inr (i32 (i32 (s * first) + r))))"

definition offset_var :: "'a store \<Rightarrow> nat \<Rightarrow> int \<Rightarrow> int list \<Rightarrow> halt + int" where
  "offset_var st self first args =
     bnd (obj st self) (\<lambda>a. adder st (stride_ptr a) 1 first args)"

definition at_var :: "'a store \<Rightarrow> nat \<Rightarrow> int \<Rightarrow> int list \<Rightarrow> halt + 'a option" where
  "at_var st self first args =
     bnd (offset_var st self first args) (\<lambda>off.
     bnd (obj st self) (\<lambda>a. ld_val_at st (head a) off))"

subsection \<open>Periodic rolling and transposition\<close>

definition rollindex :: "'a store \<Rightarrow> nat \<Rightarrow> bool \<Rightarrow> int \<Rightarrow> int \<Rightarrow> halt + int" where
  "rollindex st self dir rawind axis =
     bnd (obj st self) (\<lambda>a.
     bnd (ld_int_at st (stride_ptr a) axis) (\<lambda>blk.
     bnd (ld_int_at st (stride_ptr a) (axis + 1)) (\<lambda>stp.
     bnd (cmod rawind blk) (\<lambda>m.
     bnd (cdiv m stp) (\<lambda>axisind.
     bnd (ld_int_at st (shape_ptr a) axis) (\<lambda>n.
     (let d = (if dir then 1 else 0);
          r1 = i32 (rawind + i32 ((2 * d - 1) * stp))
      in Inr (if axisind = i32 (d * i32 (n - 1))
              then i32 (r1 - i32 ((2 * d - 1) * blk))
              else r1))))))))"

definition rollind :: "nat \<Rightarrow> 'a store \<Rightarrow> nat \<Rightarrow> int \<Rightarrow> int \<Rightarrow> halt + int" where
  "rollind D st self rawind ax =
     (if ax < 0 then rollindex st self False rawind (ax + int D)
      else rollindex st self True rawind ax)"

text \<open>\<open>n\<close> successive calls of \<open>rollind\<close> on one axis, each on the result of the last.\<close>

fun roll_times :: "nat \<Rightarrow> nat \<Rightarrow> 'a store \<Rightarrow> nat \<Rightarrow> int \<Rightarrow> int \<Rightarrow> halt + int" where
  "roll_times 0 D st self rawind ax = Inr rawind"
| "roll_times (Suc n) D st self rawind ax =
     bnd (roll_times n D st self rawind ax) (\<lambda>r. rollind D st self r ax)"

definition transpose_nd :: "'a store \<Rightarrow> nat \<Rightarrow> int \<Rightarrow> int \<Rightarrow> halt + 'a store" where
  "transpose_nd st self i j =
     bnd (obj st self) (\<lambda>a.
     bnd (swap_int st (stride_ptr a) (i + 1) (j + 1)) (\<lambda>st1.
     swap_int st1 (shape_ptr a) (i + 1) (j + 1)))"

subsection \<open>Arithmetic\<close>

text \<open>
  \<^verbatim>\<open>operator-() const\<close>, lines 271 to 277.  Line 272, \<^verbatim>\<open>ndarray<dtype, D> tmp(*this);\<close>,
  initialises \<^verbatim>\<open>tmp\<close> from an lvalue of the same element type, and line 276,
  \<^verbatim>\<open>return *this;\<close>, binds the returned \<^verbatim>\<open>ndarray<dtype, D> &\<close> to \<^verbatim>\<open>*this\<close>, which is const
  in a const member.  The body writes the negated elements into \<^verbatim>\<open>tmp\<close>, which ends with
  the call, and its result is the address of the returned object, \<^verbatim>\<open>*this\<close>.
\<close>

definition neg :: "(nat \<Rightarrow> ('a::uminus) store \<Rightarrow> nat \<Rightarrow> halt + nat \<times> 'a store) build" where
  "neg =
     then_build (select_ctor True Lvalue) (\<lambda>c.
     then_build (bind_lref Mutable Const) (\<lambda>u.
     Builds (\<lambda>D st self.
       (let (t, st0) = new_obj st in
        bnd (run_ctor c D id st0 t self) (\<lambda>st1.
        bnd (size_nd st1 self) (\<lambda>n.
        bnd (obj st1 self) (\<lambda>a.
        bnd (obj st1 t) (\<lambda>b.
        bnd (for_loop (nat n) (\<lambda>i s.
               bnd (ld_val s (head a) i) (\<lambda>c.
               st_val s (head b) i (map_option uminus c))) st1) (\<lambda>st2.
        bnd (dtor st2 t) (\<lambda>st3.
        Inr (self, st3)))))))))))"

text \<open>
  The member template \<^verbatim>\<open>pm<N>\<close>: \<^verbatim>\<open>head[i] += N * rhs[i]\<close> for every \<open>i\<close> below \<^verbatim>\<open>size()\<close>.
  \<^verbatim>\<open>operator+=\<close> (line 288) returns \<^verbatim>\<open>this->pm<1>(rhs)\<close>.  \<^verbatim>\<open>operator-=\<close> (line 291) is
  written \<^verbatim>\<open>return *this->pm<-1>(rhs);\<close>, a unary \<^verbatim>\<open>*\<close> on the array that \<^verbatim>\<open>pm\<close> returns, for
  which the class has no operator: it does not build and is not modelled.
\<close>

definition pm :: "int \<Rightarrow> ('a::ring_1) store \<Rightarrow> nat \<Rightarrow> nat \<Rightarrow> halt + 'a store" where
  "pm N st self rhs =
     bnd (size_nd st self) (\<lambda>n.
     bnd (obj st self) (\<lambda>a.
     bnd (obj st rhs) (\<lambda>b.
     for_loop (nat n) (\<lambda>i s.
       bnd (ld_val s (head b) i) (\<lambda>r.
       bnd (ld_val s (head a) i) (\<lambda>c.
       st_val s (head a) i
         (case (c, r) of (Some u, Some v) \<Rightarrow> Some (u + of_int N * v) | _ \<Rightarrow> None)))) st)))"

definition plus_assign :: "('a::ring_1) store \<Rightarrow> nat \<Rightarrow> nat \<Rightarrow> halt + 'a store" where
  "plus_assign st self rhs = pm 1 st self rhs"

section \<open>Well-formed arrays\<close>

text \<open>
  \<open>int_buf st p xs\<close>: the pointer \<open>p\<close> is not null and its buffer holds exactly the
  initialised integers \<open>xs\<close>; \<open>val_buf\<close> likewise for a buffer of elements.
  \<open>holds D st self sh sd dat\<close>: the object at \<open>self\<close> is fully allocated, with extents
  \<open>sh\<close>, strides \<open>sd\<close> and elements \<open>dat\<close>, and \<^verbatim>\<open>size()\<close> is the length of the element
  buffer.
\<close>

definition int_buf :: "'a store \<Rightarrow> nat option \<Rightarrow> int list \<Rightarrow> bool" where
  "int_buf st p xs = (case p of None \<Rightarrow> False | Some a \<Rightarrow> ints st a = Some (map Some xs))"

definition val_buf :: "'a store \<Rightarrow> nat option \<Rightarrow> 'a option list \<Rightarrow> bool" where
  "val_buf st p cs = (case p of None \<Rightarrow> False | Some a \<Rightarrow> vals st a = Some cs)"

definition holds ::
  "nat \<Rightarrow> 'a store \<Rightarrow> nat \<Rightarrow> int list \<Rightarrow> int list \<Rightarrow> 'a option list \<Rightarrow> bool" where
  "holds D st self sh sd dat =
     (case objs st self of None \<Rightarrow> False
      | Some a \<Rightarrow>
          int_buf st (shape_ptr a) sh \<and> int_buf st (stride_ptr a) sd \<and>
          val_buf st (head a) dat \<and> shape_ptr a \<noteq> stride_ptr a \<and>
          length sh = D \<and> length sd = Suc D \<and> sd ! 0 = int (length dat))"

section \<open>Example stores\<close>

text \<open>
  \<open>mat23\<close>: one rank-2 array of shape \<open>(2, 3)\<close> at address 0, as the shape-list
  constructor lays it out, with elements \<open>10, \<dots>, 60\<close>.  \<open>cube234\<close>: one rank-3 array
  of shape \<open>(2, 3, 4)\<close> with its elements not yet written.
\<close>

definition mat23 :: "int store" where
  "mat23 =
     \<lparr>ints = (\<lambda>a. if a = 1 then Some [Some 2, Some 3]
                  else if a = 2 then Some [Some 6, Some 3, Some 1] else None),
      vals = (\<lambda>a. if a = 3 then Some [Some 10, Some 20, Some 30, Some 40, Some 50, Some 60]
                  else None),
      objs = (\<lambda>a. if a = 0
                  then Some \<lparr>shape_ptr = Some 1, stride_ptr = Some 2, head = Some 3\<rparr>
                  else None),
      brk = 4\<rparr>"

definition cube234 :: "int store" where
  "cube234 =
     \<lparr>ints = (\<lambda>a. if a = 1 then Some [Some 2, Some 3, Some 4]
                  else if a = 2 then Some [Some 24, Some 12, Some 4, Some 1] else None),
      vals = (\<lambda>a. if a = 3 then Some (replicate 24 None) else None),
      objs = (\<lambda>a. if a = 0
                  then Some \<lparr>shape_ptr = Some 1, stride_ptr = Some 2, head = Some 3\<rparr>
                  else None),
      brk = 4\<rparr>"

text \<open>
  \<open>blank\<close>: nothing allocated; address 0 is set aside for an object.  \<open>cube333\<close>: the
  rank-3 array that \<^verbatim>\<open>ndarray<T, 3>(3)\<close> builds at address 0 in \<open>blank\<close>, and
  \<open>cube333t\<close>: the same array after \<^verbatim>\<open>transpose(0, 1)\<close>.
\<close>

definition blank :: "int store" where
  "blank = \<lparr>ints = (\<lambda>a. None), vals = (\<lambda>a. None), objs = (\<lambda>a. None), brk = 1\<rparr>"

definition cube333 :: "int store" where
  "cube333 =
     \<lparr>ints = (\<lambda>a. if a = 1 then Some [Some 3, Some 3, Some 3]
                  else if a = 2 then Some [Some 27, Some 9, Some 3, Some 1] else None),
      vals = (\<lambda>a. if a = 3 then Some (replicate 27 None) else None),
      objs = (\<lambda>a. if a = 0
                  then Some \<lparr>shape_ptr = Some 1, stride_ptr = Some 2, head = Some 3\<rparr>
                  else None),
      brk = 4\<rparr>"

definition cube333t :: "int store" where
  "cube333t =
     \<lparr>ints = (\<lambda>a. if a = 1 then Some [Some 3, Some 3, Some 3]
                  else if a = 2 then Some [Some 27, Some 3, Some 9, Some 1] else None),
      vals = (\<lambda>a. if a = 3 then Some (replicate 27 None) else None),
      objs = (\<lambda>a. if a = 0
                  then Some \<lparr>shape_ptr = Some 1, stride_ptr = Some 2, head = Some 3\<rparr>
                  else None),
      brk = 4\<rparr>"

text \<open>
  \<open>cube234t\<close>: \<open>cube234\<close> after \<^verbatim>\<open>transpose(0, 1)\<close>.  \<open>two_mats\<close>: \<open>mat23\<close> and a
  second rank-2 array of shape \<open>(1, 2)\<close> at address 4.
\<close>

definition cube234t :: "int store" where
  "cube234t =
     \<lparr>ints = (\<lambda>a. if a = 1 then Some [Some 2, Some 4, Some 3]
                  else if a = 2 then Some [Some 24, Some 4, Some 12, Some 1] else None),
      vals = (\<lambda>a. if a = 3 then Some (replicate 24 None) else None),
      objs = (\<lambda>a. if a = 0
                  then Some \<lparr>shape_ptr = Some 1, stride_ptr = Some 2, head = Some 3\<rparr>
                  else None),
      brk = 4\<rparr>"

definition two_mats :: "int store" where
  "two_mats =
     \<lparr>ints = (\<lambda>a. if a = 1 then Some [Some 2, Some 3]
                  else if a = 2 then Some [Some 6, Some 3, Some 1]
                  else if a = 5 then Some [Some 1, Some 2]
                  else if a = 6 then Some [Some 2, Some 2, Some 1] else None),
      vals = (\<lambda>a. if a = 3 then Some [Some 10, Some 20, Some 30, Some 40, Some 50, Some 60]
                  else if a = 7 then Some [Some 7, Some 8] else None),
      objs = (\<lambda>a. if a = 0
                  then Some \<lparr>shape_ptr = Some 1, stride_ptr = Some 2, head = Some 3\<rparr>
                  else if a = 4
                  then Some \<lparr>shape_ptr = Some 5, stride_ptr = Some 6, head = Some 7\<rparr>
                  else None),
      brk = 8\<rparr>"


section \<open>Closed forms of construction\<close>

text \<open>
  \<open>row_major sh\<close> is the stride buffer the constructor loops compute for the extents
  \<open>sh\<close>, 32-bit products included.  \<open>install st self sh sd dat\<close> is the store after the
  three buffers have been allocated at \<open>brk st\<close> and the two addresses after it, filled
  with \<open>sh\<close>, \<open>sd\<close> and \<open>dat\<close>, and the object at \<open>self\<close> points to them.
  \<open>built st self sh\<close> is the outcome of the common tail of the three constructors.
\<close>

fun row_major :: "int list \<Rightarrow> int list" where
  "row_major [] = [1]"
| "row_major (n # ns) = i32 (hd (row_major ns) * n) # row_major ns"

definition install ::
  "'a store \<Rightarrow> nat \<Rightarrow> int list \<Rightarrow> int list \<Rightarrow> 'a option list \<Rightarrow> 'a store" where
  "install st self sh sd dat =
     st\<lparr>ints := (ints st)(brk st \<mapsto> map Some sh, Suc (brk st) \<mapsto> map Some sd),
        vals := (vals st)(Suc (Suc (brk st)) \<mapsto> dat),
        objs := (objs st)(self \<mapsto> \<lparr>shape_ptr = Some (brk st), stride_ptr = Some (Suc (brk st)),
                                      head = Some (Suc (Suc (brk st)))\<rparr>),
        brk := Suc (Suc (Suc (brk st)))\<rparr>"

definition built :: "'a store \<Rightarrow> nat \<Rightarrow> int list \<Rightarrow> halt + 'a store" where
  "built st self sh =
     (if \<forall>v\<in>set sh. 0 < v
      then if hd (row_major sh) < 0 then Inl BadArrayLength
           else Inr (install st self sh (row_major sh)
                       (replicate (nat (hd (row_major sh))) None))
      else Inl (Exit ''Error: Positive shape needed!''))"

section \<open>Assignment through \<^verbatim>\<open>operator()\<close>, and outcomes of construction\<close>

text \<open>
  \<^verbatim>\<open>operator()\<close> returns a reference as \<^verbatim>\<open>operator[]\<close> does; \<open>set_coo\<close> and \<open>set_var\<close>
  assign through it.  \<open>exits r\<close>: the run ended in \<^verbatim>\<open>exit(0)\<close> after a diagnostic;
  \<open>returns r\<close>: the run returned normally.
\<close>

definition set_coo :: "nat \<Rightarrow> 'a store \<Rightarrow> nat \<Rightarrow> int list \<Rightarrow> 'a \<Rightarrow> halt + 'a store" where
  "set_coo D st self coo v =
     bnd (offset_coo D st self coo) (\<lambda>off.
     bnd (obj st self) (\<lambda>a. st_val_at st (head a) off (Some v)))"

definition set_var :: "'a store \<Rightarrow> nat \<Rightarrow> int \<Rightarrow> int list \<Rightarrow> 'a \<Rightarrow> halt + 'a store" where
  "set_var st self first args v =
     bnd (offset_var st self first args) (\<lambda>off.
     bnd (obj st self) (\<lambda>a. st_val_at st (head a) off (Some v)))"

definition exits :: "halt + 'x \<Rightarrow> bool" where
  "exits r = (case r of Inl (Exit m) \<Rightarrow> True | _ \<Rightarrow> False)"

definition returns :: "halt + 'x \<Rightarrow> bool" where
  "returns r = (case r of Inl e \<Rightarrow> False | Inr x \<Rightarrow> True)"

section \<open>The class invariant\<close>

text \<open>
  \<open>fresh st\<close>: nothing lives at or beyond the allocator's next address.
  \<open>allocated D st a\<close>: the three pointers of \<open>a\<close> are non-null and lead to live buffers,
  \<^verbatim>\<open>_shape\<close> with \<open>D\<close> and \<^verbatim>\<open>_stride\<close> with \<open>D + 1\<close> initialised entries at two different
  addresses; the extents are positive, and \<^verbatim>\<open>_stride[0]\<close>, the length of the element
  buffer and the product of the extents are one number.  \<open>apart a b\<close>: the two
  objects share no buffer.  \<open>heap_inv D st\<close>: every live object is either \<open>null_nd\<close> (all
  three pointers null) or allocated, and different objects are apart.
  \<open>release st self a\<close> is the store after the destructor of the object \<open>a\<close> at \<open>self\<close>.
\<close>

definition fresh :: "'a store \<Rightarrow> bool" where
  "fresh st = (\<forall>p\<ge>brk st. ints st p = None \<and> vals st p = None \<and> objs st p = None)"

definition allocated :: "nat \<Rightarrow> 'a store \<Rightarrow> ndarray \<Rightarrow> bool" where
  "allocated D st a =
     (case (shape_ptr a, stride_ptr a, head a) of
        (Some sp, Some tp, Some hp) \<Rightarrow>
          (case (ints st sp, ints st tp, vals st hp) of
             (Some bs, Some bt, Some bd) \<Rightarrow>
               sp \<noteq> tp \<and> length bs = D \<and> length bt = Suc D \<and> None \<notin> set bs \<and>
               None \<notin> set bt \<and> bt ! 0 = Some (int (length bd)) \<and>
               (\<forall>e\<in>set (map the bs). 0 < e) \<and> int (length bd) = prod_list (map the bs)
           | _ \<Rightarrow> False)
      | _ \<Rightarrow> False)"

definition int_ptrs :: "ndarray \<Rightarrow> nat set" where
  "int_ptrs a = set_option (shape_ptr a) \<union> set_option (stride_ptr a)"

definition apart :: "ndarray \<Rightarrow> ndarray \<Rightarrow> bool" where
  "apart a b = (int_ptrs a \<inter> int_ptrs b = {} \<and> set_option (head a) \<inter> set_option (head b) = {})"

definition heap_inv :: "nat \<Rightarrow> 'a store \<Rightarrow> bool" where
  "heap_inv D st =
     (fresh st \<and>
      (\<forall>s a. objs st s = Some a \<longrightarrow> a = null_nd \<or> allocated D st a) \<and>
      (\<forall>s t a b. objs st s = Some a \<longrightarrow> objs st t = Some b \<longrightarrow> s \<noteq> t \<longrightarrow> apart a b))"

definition release :: "'a store \<Rightarrow> nat \<Rightarrow> ndarray \<Rightarrow> 'a store" where
  "release st self a =
     st\<lparr>ints := (\<lambda>p. if p \<in> int_ptrs a then None else ints st p),
        vals := (\<lambda>p. if p \<in> set_option (head a) then None else vals st p),
        objs := (objs st)(self := None)\<rparr>"

section \<open>Copies\<close>

text \<open>
  \<open>is_copy D st st' self x sh sd dat cp\<close>: in the store \<open>st'\<close> reached from \<open>st\<close>, the
  object at \<open>self\<close> and the source \<open>x\<close> both have extents \<open>sh\<close> and stride buffer \<open>sd\<close>, the
  source has the elements \<open>dat\<close> and \<open>self\<close> the elements \<open>cp\<close>; the source object is the one
  it was; the three buffers of \<open>self\<close> are at addresses that were not live in \<open>st\<close>; every
  \<^verbatim>\<open>self[i] = v\<close> that returns leaves the source as it was, and for every \<open>i\<close> below the
  element count it does return, with element \<open>i\<close> of \<open>self\<close> now \<open>v\<close>.
\<close>

definition is_copy ::
  "nat \<Rightarrow> 'a store \<Rightarrow> 'a store \<Rightarrow> nat \<Rightarrow> nat \<Rightarrow> int list \<Rightarrow> int list \<Rightarrow> 'a option list \<Rightarrow>
   'a option list \<Rightarrow> bool"
  where
  "is_copy D st st' self x sh sd dat cp =
     (holds D st' self sh sd cp \<and> holds D st' x sh sd dat \<and> objs st' x = objs st x \<and>
      (\<forall>a. objs st' self = Some a \<longrightarrow>
           (\<forall>p\<in>int_ptrs a. ints st p = None) \<and> (\<forall>p\<in>set_option (head a). vals st p = None)) \<and>
      (\<forall>i v st''. set_raw st' self i v = Inr st'' \<longrightarrow> holds D st'' x sh sd dat) \<and>
      (\<forall>i<length cp. \<forall>v. \<exists>st''. set_raw st' self (int i) v = Inr st'' \<and>
           holds D st'' self sh sd (cp[i := Some v]) \<and> holds D st'' x sh sd dat))"

section \<open>Basic facts\<close>

lemma bnd_simps [simp]: "bnd (Inr v) f = f v" "bnd (Inl e) f = Inl e"
  by (simp_all add: bnd_def)

lemma bnd_eq_Inr: "bnd m f = Inr y \<longleftrightarrow> (\<exists>v. m = Inr v \<and> f v = Inr y)"
  by (cases m) simp_all

lemma i32_id: "- 2147483648 \<le> x \<Longrightarrow> x < 2147483648 \<Longrightarrow> i32 x = x"
  by (simp add: i32_def)

lemma i32_range: "- 2147483648 \<le> i32 x \<and> i32 x < 2147483648"
  by (simp add: i32_def)

lemma i32_add_left [simp]: "i32 (i32 a + b) = i32 (a + b)"
  by (simp add: i32_def algebra_simps mod_simps)

lemma i32_add_right [simp]: "i32 (a + i32 b) = i32 (a + b)"
  by (simp add: i32_def algebra_simps mod_simps)

lemma i32_diff_left [simp]: "i32 (i32 a - b) = i32 (a - b)"
  by (simp add: i32_def algebra_simps mod_simps)

lemma i32_diff_right [simp]: "i32 (a - i32 b) = i32 (a - b)"
  by (simp add: i32_def algebra_simps mod_simps)

lemma i32_0 [simp]: "i32 0 = 0"
  by (simp add: i32_def)

lemma ld_int_buf:
  "int_buf st p xs \<Longrightarrow> ld_int st p i = (if i < length xs then Inr (xs ! i) else Inl OutOfBounds)"
  by (auto simp: int_buf_def ld_int_def split: option.splits)

lemmas access_defs =
  ld_int_def st_int_def ld_int_at_def st_int_at_def ld_val_def st_val_def ld_val_at_def
  st_val_at_def swap_int_def obj_def put_obj_def empty_nd_def size_nd_def shape_def
  stride_def at_raw_def set_raw_def int_buf_def val_buf_def holds_def

section \<open>Indexing: variadic arguments against a coordinate array\<close>

lemma adder_sum:
  "int_buf st p sd \<Longrightarrow> k + length args < length sd \<Longrightarrow>
   adder st p k f args = Inr (i32 (\<Sum>i<Suc (length args). (f # args) ! i * sd ! (k + i)))"
proof (induction args arbitrary: k f)
  case Nil
  then show ?case by (simp add: ld_int_buf mult.commute)
next
  case (Cons a args)
  have "adder st p (k + 1) a args =
        Inr (i32 (\<Sum>i<Suc (length args). (a # args) ! i * sd ! (k + 1 + i)))"
    using Cons.prems by (intro Cons.IH) simp_all
  moreover have "(\<Sum>i<Suc (Suc (length args)). (f # a # args) ! i * sd ! (k + i)) =
      f * sd ! k + (\<Sum>i<Suc (length args). (a # args) ! i * sd ! (k + 1 + i))"
    by (subst sum.lessThan_Suc_shift) simp
  ultimately show ?case
    using Cons.prems by (simp add: ld_int_buf mult.commute del: sum.lessThan_Suc)
qed

lemma coo_loop_sum:
  "int_buf st p sd \<Longrightarrow> n \<le> length coo \<Longrightarrow> n < length sd \<Longrightarrow>
   for_loop n (\<lambda>i off. bnd (arr_at coo i) (\<lambda>c. bnd (ld_int st p (i + 1)) (\<lambda>s.
       Inr (i32 (off + i32 (c * s)))))) 0
   = Inr (i32 (\<Sum>i<n. coo ! i * sd ! (i + 1)))"
  by (induction n) (simp_all add: ld_int_buf arr_at_def)

lemma offset_coo_sum:
  "objs st self = Some a \<Longrightarrow> int_buf st (stride_ptr a) sd \<Longrightarrow> D \<le> length coo \<Longrightarrow>
   D < length sd \<Longrightarrow>
   offset_coo D st self coo = Inr (i32 (\<Sum>i<D. coo ! i * sd ! (i + 1)))"
  apply (simp only: offset_coo_def obj_def option.simps bnd_simps)
  apply (rule coo_loop_sum; assumption)
  done

lemma padded_sum:
  fixes xs :: "int list"
  assumes "length xs \<le> D"
  shows "(\<Sum>i<D. (xs @ replicate (D - length xs) 0) ! i * g i) = (\<Sum>i<length xs. xs ! i * g i)"
proof -
  have "(\<Sum>i<D. (xs @ replicate (D - length xs) 0) ! i * g i)
      = (\<Sum>i<length xs. (xs @ replicate (D - length xs) 0) ! i * g i)
      + (\<Sum>i=length xs..<D. (xs @ replicate (D - length xs) 0) ! i * g i)"
    using sum.atLeastLessThan_concat [of 0 "length xs" D
            "\<lambda>i. (xs @ replicate (D - length xs) 0) ! i * g i"] assms
    by (simp add: atLeast0LessThan)
  also have "(\<Sum>i<length xs. (xs @ replicate (D - length xs) 0) ! i * g i)
      = (\<Sum>i<length xs. xs ! i * g i)"
    by (intro sum.cong) (simp_all add: nth_append)
  also have "(\<Sum>i=length xs..<D. (xs @ replicate (D - length xs) 0) ! i * g i) = 0"
    by (intro sum.neutral) (auto simp: nth_append)
  finally show ?thesis by simp
qed

text \<open>
  C4.  On a fully allocated array, \<^verbatim>\<open>operator()(i0, ..., i(k-1))\<close> with \<open>1 \<le> k \<le> D\<close>
  arguments returns what \<^verbatim>\<open>operator()(coo)\<close> returns for the coordinate array
  \<open>(i0, ..., i(k-1), 0, ..., 0)\<close> of length \<open>D\<close>, and the offset it reads is the 32-bit
  sum of each argument times the current stride of its axis (\<^verbatim>\<open>_stride[axis + 1]\<close>).
\<close>

theorem variadic_eq_coordinate:
  assumes "holds D st self sh sd dat" and "length args < D"
  shows "at_var st self first args =
           at_coo D st self ((first # args) @ replicate (D - Suc (length args)) 0)
       \<and> offset_var st self first args =
           Inr (i32 (\<Sum>i<Suc (length args). (first # args) ! i * sd ! Suc i))"
proof -
  from assms(1) obtain a where a: "objs st self = Some a" "int_buf st (stride_ptr a) sd"
      "length sd = Suc D"
    by (auto simp: holds_def split: option.splits)
  let ?coo = "(first # args) @ replicate (D - Suc (length args)) 0"
  have v: "offset_var st self first args =
      Inr (i32 (\<Sum>i<Suc (length args). (first # args) ! i * sd ! Suc i))"
    using a assms(2) by (simp add: offset_var_def obj_def adder_sum)
  have "offset_coo D st self ?coo = Inr (i32 (\<Sum>i<D. ?coo ! i * sd ! (i + 1)))"
    using a assms(2) by (intro offset_coo_sum) simp_all
  also have "(\<Sum>i<D. ?coo ! i * sd ! (i + 1))
      = (\<Sum>i<Suc (length args). (first # args) ! i * sd ! Suc i)"
    using padded_sum [of "first # args" D "\<lambda>i. sd ! (i + 1)"] assms(2) by simp
  finally have c: "offset_coo D st self ?coo = offset_var st self first args"
    using v by simp
  show ?thesis using v c by (simp add: at_var_def at_coo_def)
qed

theorem variadic_eq_coordinate_witness:
  "holds 2 mat23 0 [2, 3] [6, 3, 1] [Some 10, Some 20, Some 30, Some 40, Some 50, Some 60]
   \<and> length ([] :: int list) < 2
   \<and> at_var mat23 0 1 [] = at_coo 2 mat23 0 [1, 0]
   \<and> at_var mat23 0 1 [] = Inr (Some 40)
   \<and> offset_var mat23 0 1 [] = Inr 3"
proof -
  have h: "holds 2 mat23 0 [2, 3] [6, 3, 1]
             [Some 10, Some 20, Some 30, Some 40, Some 50, Some 60]"
    by (simp add: holds_def int_buf_def val_buf_def mat23_def)
  have v: "at_var mat23 0 1 [] = Inr (Some 40)"
    by (simp add: at_var_def offset_var_def access_defs mat23_def i32_def)
  show ?thesis
    using h v variadic_eq_coordinate [OF h, of "[]" 1] by (simp add: i32_def)
qed

section \<open>Initialisation from an array, and the members that need a copy\<close>

lemma select_ctor_cases:
  "select_ctor True Lvalue = Ill_formed ''use of deleted function ndarray(const ndarray&)''"
  "select_ctor True Rvalue = Builds Move_122"
  "select_ctor False cat = Builds Template_105"
  by (simp_all add: select_ctor_def)

lemma construct_other_type: "construct False cat = Builds (run_ctor Template_105)"
  by (simp add: construct_def select_ctor_def then_build_def)

lemma construct_rvalue: "construct True Rvalue = Builds (run_ctor Move_122)"
  by (simp add: construct_def select_ctor_def then_build_def)

text \<open>
  C10.  \<^verbatim>\<open>a = a\<close> calls \<^verbatim>\<open>operator=(const ndarray<dtype, D> &)\<close>.  The guard
  \<^verbatim>\<open>this != &x\<close> of line 132 would make the call a no-op, but the member does not build:
  line 133 initialises \<^verbatim>\<open>copy\<close> from the lvalue \<^verbatim>\<open>x\<close> of the same element type, which
  selects the deleted copy constructor.  A program that assigns an array to itself, or to
  any other array of its type, is ill-formed, and the assignment has no run.
\<close>

theorem copy_assign_does_not_build:
  "copy_assign = Ill_formed ''use of deleted function ndarray(const ndarray&)''"
  by (simp add: copy_assign_def select_ctor_def then_build_def)

section \<open>Periodic rolling\<close>

lemma tmod_nonneg: "0 \<le> a \<Longrightarrow> 0 < b \<Longrightarrow> tmod a b = a mod b"
  by (simp add: tmod_def sgn_if)

lemma tdiv_nonneg: "0 \<le> a \<Longrightarrow> 0 < b \<Longrightarrow> tdiv a b = a div b"
  by (simp add: tdiv_def sgn_if)

lemma cmod_nonneg: "0 \<le> a \<Longrightarrow> 0 < b \<Longrightarrow> cmod a b = Inr (a mod b)"
  by (simp add: cmod_def tmod_nonneg)

lemma cdiv_nonneg:
  assumes "0 \<le> a" "0 < b" "a < 2147483648"
  shows "cdiv a b = Inr (a div b)"
proof -
  have "0 \<le> a div b" using assms by (simp add: pos_imp_zdiv_nonneg_iff)
  moreover have "a div b \<le> a"
    using zdiv_mono2 [of a 1 b] assms by simp
  ultimately have "i32 (a div b) = a div b" using assms(3) by (intro i32_id) linarith+
  then show ?thesis using assms by (simp add: cdiv_def tdiv_nonneg)
qed

lemma strides_pos:
  assumes "\<forall>i<D. sd ! i = sd ! Suc i * sh ! i" "sd ! D = (1::int)" "\<forall>i<D. 0 < sh ! i"
  shows "i \<le> D \<Longrightarrow> 0 < sd ! i"
proof (induction "D - i" arbitrary: i)
  case 0
  then show ?case using assms(2) by simp
next
  case (Suc k)
  then have "i < D" "k = D - Suc i" by simp_all
  then have "0 < sd ! Suc i" using Suc.hyps(1) [of "Suc i"] by simp
  then show ?case using assms(1,3) \<open>i < D\<close> by simp
qed

lemma stride_divides:
  fixes sd sh :: "int list"
  assumes "\<forall>i<D. sd ! i = sd ! Suc i * sh ! i" "\<forall>i<D. 0 < sh ! i"
  shows "a \<le> D \<Longrightarrow> \<exists>m>0. sd ! 0 = m * sd ! a"
proof (induction a)
  case 0
  show ?case by (rule exI [of _ "1::int"]) simp
next
  case (Suc a)
  then obtain m where m: "0 < m" "sd ! 0 = m * sd ! a" by auto
  have "sd ! a = sd ! Suc a * sh ! a" "0 < sh ! a" using assms Suc.prems by simp_all
  then show ?case using m by (intro exI [of _ "m * sh ! a"]) (simp add: mult.assoc mult.commute)
qed

lemma pos_mod:
  fixes s n p q t :: int
  assumes "0 \<le> t" "t < s" "0 \<le> p" "p < n"
  shows "(q * (s * n) + p * s + t) mod (s * n) = p * s + t"
proof -
  have s: "0 < s" using assms by simp
  have "(p + 1) * s \<le> n * s" using assms s by (intro mult_right_mono) simp_all
  then have lt: "p * s + t < s * n" using assms by (simp add: algebra_simps)
  have ge: "0 \<le> p * s + t" using assms s by simp
  have "(q * (s * n) + p * s + t) mod (s * n) = (p * s + t) mod (s * n)"
    by (simp add: add.assoc)
  then show ?thesis using lt ge by simp
qed

lemma pos_div:
  fixes s p t :: int
  assumes "0 \<le> t" "t < s"
  shows "(p * s + t) div s = p"
  using assms by simp

lemma roll_forward:
  fixes s n p q t m :: int
  assumes h: "holds D st self sh sd dat" and a: "a < D"
    and s: "sd ! Suc a = s" and n: "sh ! a = n" and B: "sd ! a = s * n"
    and sz: "sd ! 0 = m * (s * n)" "sd ! 0 < 2147483648"
    and r: "0 \<le> t" "t < s" "0 \<le> p" "p < n" "0 \<le> q" "q < m"
  shows "rollindex st self True (q * (s * n) + p * s + t) (int a)
       = Inr (q * (s * n) + ((p + 1) mod n) * s + t)"
proof -
  from h obtain ob where ob: "objs st self = Some ob" "int_buf st (shape_ptr ob) sh"
      "int_buf st (stride_ptr ob) sd" "length sh = D" "length sd = Suc D"
    by (auto simp: holds_def split: option.splits)
  have spos: "0 < s" and npos: "0 < n" using r by simp_all
  have Bpos: "0 < s * n" using spos npos by simp
  let ?r = "q * (s * n) + p * s + t"
  have m1: "?r mod (s * n) = p * s + t" and d1: "(p * s + t) div s = p"
    using pos_mod [OF r(1-4), of q] pos_div [OF r(1,2), of p] by simp_all
  have ps: "0 \<le> p * s + t" using r spos by simp
  have "(p + 1) * s \<le> n * s" using r spos by (intro mult_right_mono) simp_all
  then have pslt: "p * s + t < s * n" using r by (simp add: algebra_simps)
  have "(q + 1) * (s * n) \<le> m * (s * n)" using r Bpos by (intro mult_right_mono) simp_all
  then have qlt: "q * (s * n) + s * n \<le> sd ! 0" using sz by (simp add: algebra_simps)
  have q0: "0 \<le> q * (s * n)" using r Bpos by simp
  have r0: "0 \<le> ?r" using q0 ps by simp
  have rlt: "?r < sd ! 0" using qlt pslt spos by simp
  have nle: "n \<le> s * n" using spos npos by (simp add: mult_le_cancel_right1)
       
  have Blt: "s * n < 2147483648" using qlt q0 sz(2) by linarith
  have nlt: "n < 2147483648" using nle Blt by linarith
  have nr: "i32 (n - 1) = n - 1" using npos nlt by (intro i32_id) linarith+
  have pr: "i32 p = p" using r(3,4) nlt by (intro i32_id) linarith+
  have ld: "ld_int_at st (stride_ptr ob) (int a) = Inr (s * n)"
           "ld_int_at st (stride_ptr ob) (int a + 1) = Inr s"
           "ld_int_at st (shape_ptr ob) (int a) = Inr n"
    using ob a s n B by (simp_all add: ld_int_at_def ld_int_buf nat_add_distrib)
  have cm: "cmod ?r (s * n) = Inr (p * s + t)"
    using cmod_nonneg [OF r0 Bpos] m1 by simp
  have "p * s + t < 2147483648" using pslt Blt by linarith
  then have cd: "cdiv (p * s + t) s = Inr p"
    using cdiv_nonneg [OF ps spos] d1 by simp
  have sle: "s \<le> s * n" using spos npos by (simp add: mult_le_cancel_left1)
  have step: "rollindex st self True ?r (int a)
      = Inr (if p = n - 1 then i32 (?r + s - s * n) else i32 (?r + s))"
    using ob(1) ld cm cd nr by (simp add: rollindex_def obj_def)
  show ?thesis
  proof (cases "p = n - 1")
    case True
    have pe: "p * s = s * n - s" unfolding True by (simp add: algebra_simps)
    have "i32 (?r + s - s * n) = ?r + s - s * n"
      using pe q0 r(1,2) sle qlt sz(2) by (intro i32_id) linarith+
    moreover have "(p + 1) mod n = 0" using True by simp
    ultimately show ?thesis using True step pe by simp
  next
    case False
    then have p1: "p + 1 < n" using r by simp
    then have "(p + 2) * s \<le> n * s" using spos by (intro mult_right_mono) simp_all
    then have "p * s + t + s < s * n" using r(1,2) by (simp add: algebra_simps)
    then have "i32 (?r + s) = ?r + s"
      using r0 spos qlt sz(2) by (intro i32_id) linarith+
    moreover have "(p + 1) mod n = p + 1" using p1 r by simp
    ultimately show ?thesis using False step by (simp add: algebra_simps)
  qed
qed


lemma roll_backward:
  fixes s n p q t m :: int
  assumes h: "holds D st self sh sd dat" and a: "a < D"
    and s: "sd ! Suc a = s" and n: "sh ! a = n" and B: "sd ! a = s * n"
    and sz: "sd ! 0 = m * (s * n)" "sd ! 0 < 2147483648"
    and r: "0 \<le> t" "t < s" "0 \<le> p" "p < n" "0 \<le> q" "q < m"
  shows "rollindex st self False (q * (s * n) + p * s + t) (int a)
       = Inr (q * (s * n) + ((p - 1) mod n) * s + t)"
proof -
  from h obtain ob where ob: "objs st self = Some ob" "int_buf st (shape_ptr ob) sh"
      "int_buf st (stride_ptr ob) sd" "length sh = D" "length sd = Suc D"
    by (auto simp: holds_def split: option.splits)
  have spos: "0 < s" and npos: "0 < n" using r by simp_all
  have Bpos: "0 < s * n" using spos npos by simp
  let ?r = "q * (s * n) + p * s + t"
  have m1: "?r mod (s * n) = p * s + t" and d1: "(p * s + t) div s = p"
    using pos_mod [OF r(1-4), of q] pos_div [OF r(1,2), of p] by simp_all
  have ps: "0 \<le> p * s + t" using r spos by simp
  have "(p + 1) * s \<le> n * s" using r spos by (intro mult_right_mono) simp_all
  then have pslt: "p * s + t < s * n" using r by (simp add: algebra_simps)
  have "(q + 1) * (s * n) \<le> m * (s * n)" using r Bpos by (intro mult_right_mono) simp_all
  then have qlt: "q * (s * n) + s * n \<le> sd ! 0" using sz by (simp add: algebra_simps)
  have q0: "0 \<le> q * (s * n)" using r Bpos by simp
  have r0: "0 \<le> ?r" using q0 ps by simp
  have rlt: "?r < sd ! 0" using qlt pslt spos by simp
  have ld: "ld_int_at st (stride_ptr ob) (int a) = Inr (s * n)"
           "ld_int_at st (stride_ptr ob) (int a + 1) = Inr s"
           "ld_int_at st (shape_ptr ob) (int a) = Inr n"
    using ob a s n B by (simp_all add: ld_int_at_def ld_int_buf nat_add_distrib)
  have cm: "cmod ?r (s * n) = Inr (p * s + t)"
    using cmod_nonneg [OF r0 Bpos] m1 by simp
  have "p * s + t < 2147483648" using pslt qlt q0 sz(2) by linarith
  then have cd: "cdiv (p * s + t) s = Inr p"
    using cdiv_nonneg [OF ps spos] d1 by simp
  have sle: "s \<le> s * n" using spos npos by (simp add: mult_le_cancel_left1)
  have step: "rollindex st self False ?r (int a)
      = Inr (if p = 0 then i32 (?r - s + s * n) else i32 (?r - s))"
    using ob(1) ld cm cd by (simp add: rollindex_def obj_def)
  show ?thesis
  proof (cases "p = 0")
    case True
    have pe: "p * s = 0" using True by simp
    have m': "(p - 1) mod n = n - 1" using True npos by (simp add: zmod_minus1)
    have "rollindex st self False ?r (int a) = Inr (i32 (?r - s + s * n))"
      by (simp only: step if_P [OF True])
    also have "i32 (?r - s + s * n) = ?r - s + s * n"
      using pe q0 r(1,2) sle qlt sz(2) by (intro i32_id) linarith+
    also have "?r - s + s * n = q * (s * n) + ((p - 1) mod n) * s + t"
      unfolding m' pe by (simp add: algebra_simps)
    finally show ?thesis .
  next
    case False
    then have p1: "1 \<le> p" using r by simp
    then have ps1: "1 * s \<le> p * s" using spos by (intro mult_right_mono) simp_all
    have m': "(p - 1) mod n = p - 1" using p1 r by simp
    have "rollindex st self False ?r (int a) = Inr (i32 (?r - s))"
      by (simp only: step if_not_P [OF False])
    also have "i32 (?r - s) = ?r - s"
      using ps1 q0 r(1) rlt spos sz(2) by (intro i32_id) linarith+
    also have "?r - s = q * (s * n) + ((p - 1) mod n) * s + t"
      unfolding m' by (simp add: algebra_simps)
    finally show ?thesis .
  qed
qed

lemma div_less_bound:
  fixes x s n :: int
  assumes "0 < s" "x < s * n"
  shows "x div s < n"
proof (rule ccontr)
  assume "\<not> x div s < n"
  then have "s * n \<le> s * (x div s)" using assms(1) by (intro mult_left_mono) simp_all
  moreover have "s * (x div s) \<le> x"
    using mult_div_mod_eq [of s x] pos_mod_sign [OF assms(1), of x] by linarith
  ultimately show False using assms(2) by linarith
qed

lemma roll_times_forward:
  fixes s n p q t m :: int
  assumes h: "holds D st self sh sd dat" and a: "a < D"
    and s: "sd ! Suc a = s" and n: "sh ! a = n" and B: "sd ! a = s * n"
    and sz: "sd ! 0 = m * (s * n)" "sd ! 0 < 2147483648"
    and r: "0 \<le> t" "t < s" "0 \<le> p" "p < n" "0 \<le> q" "q < m"
  shows "roll_times k D st self (q * (s * n) + p * s + t) (int a)
       = Inr (q * (s * n) + ((p + int k) mod n) * s + t)"
proof (induction k)
  case 0
  show ?case using r by simp
next
  case (Suc k)
  have npos: "0 < n" using r by simp
  have "rollindex st self True (q * (s * n) + ((p + int k) mod n) * s + t) (int a)
      = Inr (q * (s * n) + (((p + int k) mod n + 1) mod n) * s + t)"
    using npos by (intro roll_forward [OF h a s n B sz r(1,2) _ _ r(5,6)]) simp_all
  moreover have "((p + int k) mod n + 1) mod n = (p + int (Suc k)) mod n"
    by (simp add: mod_simps algebra_simps)
  ultimately show ?case using Suc.IH by (simp add: rollind_def)
qed

text \<open>
  C2 (as amended).  On an array whose strides are as the constructors leave them
  (\<open>sd ! D = 1\<close> and \<open>sd ! i = sd ! (i + 1) * sh ! i\<close>, all extents positive, the size
  below \<open>2^31\<close>), for every raw offset \<open>0 \<le> r < size\<close> and every axis \<open>a < D\<close>:
  \<open>sh ! a\<close> forward calls of \<open>rollind\<close> on axis \<open>a\<close> return \<open>r\<close>, and one forward
  call followed by one backward call (axis \<open>a - D\<close>) returns \<open>r\<close>.
\<close>

theorem roll_round_trip:
  assumes h: "holds D st self sh sd dat"
    and rm: "\<forall>i<D. sd ! i = sd ! Suc i * sh ! i" "sd ! D = 1" "\<forall>i<D. 0 < sh ! i"
    and sz: "sd ! 0 < 2147483648"
    and r: "0 \<le> r" "r < sd ! 0" and a: "a < D"
  shows "roll_times (nat (sh ! a)) D st self r (int a) = Inr r
       \<and> bnd (rollind D st self r (int a)) (\<lambda>r'. rollind D st self r' (int a - int D)) = Inr r"
proof -
  define s where "s = sd ! Suc a"
  define n where "n = sh ! a"
  have spos: "0 < s" using strides_pos [OF rm, of "Suc a"] a by (simp add: s_def)
  have npos: "0 < n" using rm(3) a by (simp add: n_def)
  have B: "sd ! a = s * n" using rm(1) a by (simp add: s_def n_def)
  obtain m where m: "0 < m" "sd ! 0 = m * (s * n)"
    using stride_divides [OF rm(1,3), of a] a B by auto
  define q where "q = r div (s * n)"
  define p where "p = (r mod (s * n)) div s"
  define t where "t = (r mod (s * n)) mod s"
  have Bpos: "0 < s * n" using spos npos by simp
  have t: "0 \<le> t" "t < s" using spos by (simp_all add: t_def)
  have p: "0 \<le> p" "p < n"
    using spos Bpos by (simp_all add: p_def pos_imp_zdiv_nonneg_iff div_less_bound)
  have q: "0 \<le> q" "q < m"
    using r m Bpos div_less_bound [of "s * n" r m]
    by (simp_all add: q_def pos_imp_zdiv_nonneg_iff mult.commute)
  have "r = q * (s * n) + r mod (s * n)"
    unfolding q_def by (rule div_mult_mod_eq [symmetric])
  moreover have "r mod (s * n) = p * s + t"
    unfolding p_def t_def by (rule div_mult_mod_eq [symmetric])
  ultimately have rdec: "r = q * (s * n) + p * s + t" by simp
  note fw = roll_forward [OF h a s_def [symmetric] n_def [symmetric] B m(2) sz t]
  note bw = roll_backward [OF h a s_def [symmetric] n_def [symmetric] B m(2) sz t]
  have "roll_times (nat n) D st self (q * (s * n) + p * s + t) (int a)
      = Inr (q * (s * n) + ((p + int (nat n)) mod n) * s + t)"
    by (rule roll_times_forward [OF h a s_def [symmetric] n_def [symmetric] B m(2) sz t p q])
  moreover have "(p + int (nat n)) mod n = p" using p npos by simp
  ultimately have one: "roll_times (nat (sh ! a)) D st self r (int a) = Inr r"
    using rdec by (simp add: n_def)
  have f: "rollind D st self r (int a) = Inr (q * (s * n) + ((p + 1) mod n) * s + t)"
    using fw [OF p q] rdec by (simp add: rollind_def)
  have "rollindex st self False (q * (s * n) + ((p + 1) mod n) * s + t) (int a)
      = Inr (q * (s * n) + (((p + 1) mod n - 1) mod n) * s + t)"
    using npos by (intro bw [OF _ _ q]) simp_all
  moreover have "((p + 1) mod n - 1) mod n = p" using p by (simp add: mod_simps)
  ultimately have "rollind D st self (q * (s * n) + ((p + 1) mod n) * s + t) (int a - int D)
      = Inr r"
    using rdec a by (simp add: rollind_def)
  then show ?thesis using one f by simp
qed


theorem roll_round_trip_witness:
  "holds 2 mat23 0 [2, 3] [6, 3, 1] [Some 10, Some 20, Some 30, Some 40, Some 50, Some 60]
   \<and> rollind 2 mat23 0 5 1 = Inr 3
   \<and> roll_times (nat ([2, 3] ! 1)) 2 mat23 0 5 (int 1) = Inr 5
   \<and> bnd (rollind 2 mat23 0 5 (int 1)) (\<lambda>r'. rollind 2 mat23 0 r' (int 1 - int 2)) = Inr 5"
proof -
  have h: "holds 2 mat23 0 [2, 3] [6, 3, 1]
             [Some 10, Some 20, Some 30, Some 40, Some 50, Some 60]"
    by (simp add: holds_def int_buf_def val_buf_def mat23_def)
  have rm: "\<forall>i<2. [6, 3, 1::int] ! i = [6, 3, 1] ! Suc i * [2, 3] ! i" "[6, 3, 1::int] ! 2 = 1"
      "\<forall>i<2. 0 < [2, 3::int] ! i"
    by (simp_all add: less_Suc_eq numeral_2_eq_2)
  have f: "rollind 2 mat23 0 5 1 = Inr 3"
    by (simp add: rollind_def rollindex_def access_defs cmod_def cdiv_def tmod_def tdiv_def
        mat23_def i32_def)
  show ?thesis
    using h f roll_round_trip [OF h rm, of 5 1] by simp
qed

text \<open>
  The claim as stated fails on a transposed array: \<open>cube333\<close> is what the width
  constructor builds, \<open>cube333t\<close> is what \<^verbatim>\<open>transpose(0, 1)\<close> makes of it (every extent is
  3, so the exchange of extents is not in question), and from the valid offset 0 three
  forward steps on axis 0 end at \<open>-18\<close>; from offset 6 a forward and a backward step end
  at \<open>-21\<close>.
\<close>

theorem roll_after_transpose_counterexample:
  "ctor_width 3 blank 0 3 = Inr cube333
   \<and> transpose_nd cube333 0 0 1 = Inr cube333t
   \<and> shape cube333t 0 0 = Inr 3
   \<and> size_nd cube333t 0 = Inr 27
   \<and> roll_times 3 3 cube333t 0 0 0 = Inr (- 18)
   \<and> bnd (rollind 3 cube333t 0 6 0) (\<lambda>r'. rollind 3 cube333t 0 r' (0 - 3)) = Inr (- 21)"
proof -
  have c: "ctor_width 3 blank 0 3 = Inr cube333"
    by (simp add: ctor_width_def check_def new_ints_def new_vals_def access_defs blank_def
        cube333_def i32_def numeral_3_eq_3 Let_def fun_eq_iff)
  have t: "transpose_nd cube333 0 0 1 = Inr cube333t"
    by (simp add: transpose_nd_def access_defs cube333_def cube333t_def fun_eq_iff)
  have r: "roll_times 3 3 cube333t 0 0 0 = Inr (- 18)"
    by (simp add: numeral_3_eq_3 rollind_def rollindex_def access_defs cmod_def cdiv_def
        tmod_def tdiv_def cube333t_def i32_def)
  have b: "bnd (rollind 3 cube333t 0 6 0) (\<lambda>r'. rollind 3 cube333t 0 r' (0 - 3)) = Inr (- 21)"
    by (simp add: rollind_def rollindex_def access_defs cmod_def cdiv_def
        tmod_def tdiv_def cube333t_def i32_def)
  have s: "shape cube333t 0 0 = Inr 3" "size_nd cube333t 0 = Inr 27"
    by (simp_all add: access_defs cube333t_def)
  show ?thesis using c t r b s by simp
qed

section \<open>Construction\<close>

lemmas ctor_defs =
  ctor_width_def ctor_list_def ctor_array_def check_def new_ints_def new_vals_def new_obj_def
  std_copy_def arr_at_def

lemma row_major_length [simp]: "length (row_major sh) = Suc (length sh)"
  by (induction sh) simp_all

lemma row_major_nonempty [simp]: "row_major sh \<noteq> []"
  by (cases sh) simp_all

lemma upd_last_none_Suc:
  "(replicate (Suc k) None @ xs)[k := y] = replicate k None @ y # xs"
  by (induction k) simp_all

lemma upd_last_cell: "(replicate (Suc k) None)[k := y] = replicate k None @ [y]"
  using upd_last_none_Suc [of k "[]" y] by simp

lemma upd_last_none:
  "0 < m \<Longrightarrow> (replicate m None @ xs)[m - 1 := y] = replicate (m - 1) None @ y # xs"
  using upd_last_none_Suc [of "m - 1" xs y] by simp

lemma store_ints_same: "f = ints st \<Longrightarrow> st\<lparr>ints := f\<rparr> = st"
  by simp

lemma store_vals_same: "f = vals st \<Longrightarrow> st\<lparr>vals := f\<rparr> = st"
  by simp

lemma check_loop:
  "ints st sp = Some (map Some sh) \<Longrightarrow> n \<le> length sh \<Longrightarrow>
   for_loop n (\<lambda>i u. bnd (ld_int st (Some sp) i) (\<lambda>v.
       if v \<le> 0 then Inl (Exit ''Error: Positive shape needed!'') else Inr u)) ()
   = (if \<forall>i<n. 0 < sh ! i then Inr () else Inl (Exit ''Error: Positive shape needed!''))"
proof (induction n)
  case 0
  show ?case by simp
next
  case (Suc n)
  then show ?case by (auto simp: ld_int_def less_Suc_eq)
qed

lemma check_closed:
  "ints st sp = Some (map Some sh) \<Longrightarrow> length sh = D \<Longrightarrow>
   check D st (Some sp)
   = (if \<forall>v\<in>set sh. 0 < v then Inr () else Inl (Exit ''Error: Positive shape needed!''))"
  unfolding check_def
  by (subst check_loop [where sh = sh]) (auto simp: all_set_conv_all_nth)

lemma list_loop:
  assumes "ints st sp = Some (map Some l)" "ints st tp = Some (replicate D None @ [Some 1])"
    "sp \<noteq> tp" "length l = D"
  shows "n \<le> D \<Longrightarrow>
    for_loop n (\<lambda>i s.
             bnd (ld_int s (Some tp) (D - i)) (\<lambda>t.
             bnd (ld_int s (Some sp) (D - i - 1)) (\<lambda>e.
             st_int s (Some tp) (D - i - 1) (i32 (t * e))))) st
    = Inr (st\<lparr>ints := (ints st)
             (tp \<mapsto> replicate (D - n) None @ map Some (row_major (drop (D - n) l)))\<rparr>)"
proof (induction n)
  case 0
  have "drop D l = []" using assms(4) by simp
  then show ?case using assms(2) by (simp add: fun_upd_idem)
next
  case (Suc n)
  then have n: "n < D" by simp
  let ?R = "row_major (drop (D - n) l)"
  let ?B = "replicate (D - n) None @ map Some ?R"
  let ?sn = "st\<lparr>ints := (ints st)(tp \<mapsto> ?B)\<rparr>"
  have d: "drop (D - Suc n) l = l ! (D - Suc n) # drop (D - n) l"
  proof -
    have "D - Suc n < length l" using n assms(4) by simp
    then have "drop (D - Suc n) l = l ! (D - Suc n) # drop (Suc (D - Suc n)) l"
      by (rule Cons_nth_drop_Suc [symmetric])
    then show ?thesis using n by (simp add: Suc_diff_Suc)
  qed
  have b: "?B ! (D - n) = Some (hd ?R)"
    by (simp add: nth_append hd_conv_nth)
  have c: "?B[D - n - 1 := y] = replicate (D - Suc n) None @ y # map Some ?R"
    for y :: "int option"
    using upd_last_none [of "D - n" "map Some ?R" y] n by simp
  have s1: "ld_int ?sn (Some tp) (D - n) = Inr (hd ?R)"
    using n b by (simp add: ld_int_def)
  have s2: "ld_int ?sn (Some sp) (D - n - 1) = Inr (l ! (D - Suc n))"
    using n assms(1,3,4) by (simp add: ld_int_def)
  have s3: "st_int ?sn (Some tp) (D - n - 1) v
      = Inr (?sn\<lparr>ints := (ints ?sn)(tp \<mapsto> ?B[D - n - 1 := Some v])\<rparr>)" for v
    using n by (simp add: st_int_def)
  have e: "?sn\<lparr>ints := (ints ?sn)(tp \<mapsto> ?B[D - n - 1 := Some v])\<rparr>
      = st\<lparr>ints := (ints st)(tp \<mapsto> replicate (D - Suc n) None @ Some v # map Some ?R)\<rparr>"
    for v
    unfolding c by (simp add: fun_eq_iff)
  show ?case
    by (simp only: for_loop.simps Suc.IH [OF less_imp_le [OF n]] bnd_simps s1 s2 s3 e d
        row_major.simps list.map)
qed

lemma upd_next_some:
  "length xs = n \<Longrightarrow> (xs @ replicate (Suc k) None)[n := y] = (xs @ [y]) @ replicate k None"
  by (simp add: list_update_append)

lemma store_ints_eqI:
  "f = g \<Longrightarrow> st\<lparr>ints := f\<rparr> = st\<lparr>ints := g\<rparr>"
  by simp

lemma width_loop:
  assumes "ints st sp = Some (replicate D None)"
    "ints st tp = Some (replicate D None @ [Some 1])" "sp \<noteq> tp"
  shows "n \<le> D \<Longrightarrow>
    for_loop n (\<lambda>i s.
             bnd (st_int s (Some sp) i w) (\<lambda>s1.
             bnd (ld_int s1 (Some tp) (D - i)) (\<lambda>t.
             st_int s1 (Some tp) (D - i - 1) (i32 (t * w))))) st
    = Inr (st\<lparr>ints := (ints st)
             (sp \<mapsto> replicate n (Some w) @ replicate (D - n) None,
              tp \<mapsto> replicate (D - n) None @ map Some (row_major (replicate n w)))\<rparr>)"
proof (induction n)
  case 0
  show ?case using assms by (simp add: fun_upd_idem)
next
  case (Suc n)
  then have n: "n < D" by simp
  let ?A = "replicate n (Some w) @ replicate (D - n) None"
  let ?B = "replicate (D - n) None @ map Some (row_major (replicate n w))"
  let ?sn = "st\<lparr>ints := (ints st)(sp \<mapsto> ?A, tp \<mapsto> ?B)\<rparr>"
  have a: "?A[n := Some w] = replicate (Suc n) (Some w) @ replicate (D - Suc n) None"
    using upd_next_some [of "replicate n (Some w)" n "D - Suc n" "Some w"] n
    by (simp add: Suc_diff_Suc replicate_append_same)
  have b: "?B ! (D - n) = Some (hd (row_major (replicate n w)))"
    by (simp add: nth_append hd_conv_nth)
  have c: "?B[D - n - 1 := y]
      = replicate (D - Suc n) None @ y # map Some (row_major (replicate n w))"
    for y :: "int option"
    using upd_last_none [of "D - n" "map Some (row_major (replicate n w))" y] n by simp
  have s1: "st_int ?sn (Some sp) n w = Inr (?sn\<lparr>ints := (ints ?sn)(sp \<mapsto> ?A[n := Some w])\<rparr>)"
    using n assms(3) by (simp add: st_int_def)
  let ?s1 = "?sn\<lparr>ints := (ints ?sn)(sp \<mapsto> ?A[n := Some w])\<rparr>"
  have s2: "ld_int ?s1 (Some tp) (D - n) = Inr (hd (row_major (replicate n w)))"
    using n assms(3) b by (simp add: ld_int_def)
  have s3: "st_int ?s1 (Some tp) (D - n - 1) v
      = Inr (?s1\<lparr>ints := (ints ?s1)(tp \<mapsto> ?B[D - n - 1 := Some v])\<rparr>)" for v
    using n assms(3) by (simp add: st_int_def)
  have e: "?s1\<lparr>ints := (ints ?s1)(tp \<mapsto> ?B[D - n - 1 := Some v])\<rparr>
      = st\<lparr>ints := (ints st)
             (sp \<mapsto> replicate (Suc n) (Some w) @ replicate (D - Suc n) None,
              tp \<mapsto> replicate (D - Suc n) None @ Some v # map Some (row_major (replicate n w)))\<rparr>"
    for v
    unfolding a c using assms(3) by (simp add: fun_eq_iff)
  show ?case
    by (simp only: for_loop.simps Suc.IH [OF less_imp_le [OF n]] bnd_simps s1 s2 s3 e
        replicate_Suc row_major.simps list.map)
qed


lemma array_loop:
  assumes "ints st sp = Some (replicate D None)"
    "ints st tp = Some (replicate D None @ [Some 1])" "sp \<noteq> tp" "D \<le> length sh"
  shows "n \<le> D \<Longrightarrow>
    for_loop n (\<lambda>i s.
             bnd (arr_at sh i) (\<lambda>v.
             bnd (st_int s (Some sp) i v) (\<lambda>s1.
             bnd (ld_int s1 (Some tp) (D - i)) (\<lambda>t.
             bnd (arr_at sh (D - i - 1)) (\<lambda>e.
             st_int s1 (Some tp) (D - i - 1) (i32 (t * e))))))) st
    = Inr (st\<lparr>ints := (ints st)
             (sp \<mapsto> map Some (take n sh) @ replicate (D - n) None,
              tp \<mapsto> replicate (D - n) None
                      @ map Some (row_major (drop (D - n) (take D sh))))\<rparr>)"
proof (induction n)
  case 0
  show ?case using assms by (simp add: fun_upd_idem)
next
  case (Suc n)
  then have n: "n < D" by simp
  let ?R = "row_major (drop (D - n) (take D sh))"
  let ?A = "map Some (take n sh) @ replicate (D - n) None"
  let ?B = "replicate (D - n) None @ map Some ?R"
  let ?sn = "st\<lparr>ints := (ints st)(sp \<mapsto> ?A, tp \<mapsto> ?B)\<rparr>"
  have a: "?A[n := Some (sh ! n)] = map Some (take (Suc n) sh) @ replicate (D - Suc n) None"
    using upd_next_some [of "map Some (take n sh)" n "D - Suc n" "Some (sh ! n)"] n assms(4)
    by (simp add: Suc_diff_Suc take_Suc_conv_app_nth)
  have b: "?B ! (D - n) = Some (hd ?R)"
    by (simp add: nth_append hd_conv_nth)
  have c: "?B[D - n - 1 := y] = replicate (D - Suc n) None @ y # map Some ?R"
    for y :: "int option"
    using upd_last_none [of "D - n" "map Some ?R" y] n by simp
  have d: "drop (D - Suc n) (take D sh) = sh ! (D - Suc n) # drop (D - n) (take D sh)"
  proof -
    have "D - Suc n < length (take D sh)" using n assms(4) by simp
    then have "drop (D - Suc n) (take D sh)
        = take D sh ! (D - Suc n) # drop (Suc (D - Suc n)) (take D sh)"
      by (rule Cons_nth_drop_Suc [symmetric])
    then show ?thesis using n by (simp add: Suc_diff_Suc)
  qed
  have r1: "arr_at sh n = Inr (sh ! n)" "arr_at sh (D - n - 1) = Inr (sh ! (D - Suc n))"
    using n assms(4) by (simp_all add: arr_at_def)
  have s1: "st_int ?sn (Some sp) n v = Inr (?sn\<lparr>ints := (ints ?sn)(sp \<mapsto> ?A[n := Some v])\<rparr>)"
    for v
    using n assms(3,4) by (simp add: st_int_def)
  let ?s1 = "?sn\<lparr>ints := (ints ?sn)(sp \<mapsto> ?A[n := Some (sh ! n)])\<rparr>"
  have s2: "ld_int ?s1 (Some tp) (D - n) = Inr (hd ?R)"
    using n assms(3) b by (simp add: ld_int_def)
  have s3: "st_int ?s1 (Some tp) (D - n - 1) v
      = Inr (?s1\<lparr>ints := (ints ?s1)(tp \<mapsto> ?B[D - n - 1 := Some v])\<rparr>)" for v
    using n assms(3) by (simp add: st_int_def)
  have e: "?s1\<lparr>ints := (ints ?s1)(tp \<mapsto> ?B[D - n - 1 := Some v])\<rparr>
      = st\<lparr>ints := (ints st)
             (sp \<mapsto> map Some (take (Suc n) sh) @ replicate (D - Suc n) None,
              tp \<mapsto> replicate (D - Suc n) None @ Some v # map Some ?R)\<rparr>"
    for v
    unfolding a c using assms(3) by (simp add: fun_eq_iff)
  show ?case
    by (simp only: for_loop.simps Suc.IH [OF less_imp_le [OF n]] bnd_simps r1 s1 s2 s3 e d
        row_major.simps list.map)
qed

lemma ctor_tail:
  assumes "ints s sp = Some (map Some sh)" "ints s tp = Some (map Some (row_major sh))"
    "length sh = D"
  shows "bnd (check D s (Some sp)) (\<lambda>u.
         bnd (ld_int s (Some tp) 0) (\<lambda>n.
         bnd (new_vals n s) (\<lambda>(hp, s').
         Inr (put_obj s' self
                \<lparr>shape_ptr = Some sp, stride_ptr = Some tp, head = Some hp\<rparr>))))
       = (if \<forall>v\<in>set sh. 0 < v
          then if hd (row_major sh) < 0 then Inl BadArrayLength
               else Inr (put_obj
                     (s\<lparr>vals := (vals s)(brk s \<mapsto> replicate (nat (hd (row_major sh))) None),
                        brk := Suc (brk s)\<rparr>) self
                     \<lparr>shape_ptr = Some sp, stride_ptr = Some tp, head = Some (brk s)\<rparr>)
          else Inl (Exit ''Error: Positive shape needed!''))"
proof -
  have "ld_int s (Some tp) 0 = Inr (hd (row_major sh))"
    using assms(2) by (simp add: ld_int_def hd_conv_nth)
  then show ?thesis
    using check_closed [OF assms(1,3)] by (simp add: new_vals_def)
qed

lemma ctor_list_closed:
  "ctor_list D st self l =
     (if length l \<noteq> D then Inl (Exit ''Initialization of shape failed.'')
      else built st self l)"
proof (cases "length l = D")
  case False
  then show ?thesis by (simp add: ctor_list_def new_ints_def Let_def)
next
  case True
  define b where "b = brk st"
  define st1 where "st1 = st\<lparr>ints := (ints st)(b \<mapsto> replicate D None), brk := Suc b\<rparr>"
  define st2 where
    "st2 = st1\<lparr>ints := (ints st1)(Suc b \<mapsto> replicate (Suc D) None), brk := Suc (Suc b)\<rparr>"
  define st3 where "st3 = st2\<lparr>ints := (ints st2)(b \<mapsto> map Some l)\<rparr>"
  define st4 where "st4 = st3\<lparr>ints := (ints st3)(Suc b \<mapsto> replicate D None @ [Some 1])\<rparr>"
  define st5 where "st5 = st4\<lparr>ints := (ints st4)(Suc b \<mapsto> map Some (row_major l))\<rparr>"
  have 1: "new_ints D st = (b, st1)" by (simp add: new_ints_def b_def st1_def)
  have 2: "new_ints (Suc D) st1 = (Suc b, st2)" by (simp add: new_ints_def b_def st1_def st2_def)
  have 3: "std_copy st2 l (Some b) = Inr st3"
    using True by (simp add: std_copy_def st1_def st2_def st3_def)
  have 4: "st_int st3 (Some (Suc b)) D 1 = Inr st4"
    by (simp add: st_int_def st3_def st2_def st1_def st4_def upd_last_cell del: replicate_Suc)
  have 5: "for_loop D (\<lambda>i s.
             bnd (ld_int s (Some (Suc b)) (D - i)) (\<lambda>t.
             bnd (ld_int s (Some b) (D - i - 1)) (\<lambda>e.
             st_int s (Some (Suc b)) (D - i - 1) (i32 (t * e))))) st4 = Inr st5"
    using list_loop [of st4 b l "Suc b" D D] True
    by (simp add: st4_def st3_def st2_def st1_def st5_def)
  have 6: "ints st5 b = Some (map Some l)" "ints st5 (Suc b) = Some (map Some (row_major l))"
    by (simp_all add: st5_def st4_def st3_def st2_def st1_def)
  have 7: "put_obj (st5\<lparr>vals := (vals st5)(brk st5 \<mapsto> dat), brk := Suc (brk st5)\<rparr>) self
             \<lparr>shape_ptr = Some b, stride_ptr = Some (Suc b), head = Some (brk st5)\<rparr>
         = install st self l (row_major l) dat" for dat
    by (simp add: put_obj_def install_def st5_def st4_def st3_def st2_def st1_def b_def fun_eq_iff)
  show ?thesis
    unfolding ctor_list_def built_def
    by (simp only: 1 2 3 4 5 Let_def prod.case bnd_simps True ctor_tail [OF 6 True] 7
        not_not if_False refl if_True)
qed


lemma ctor_width_closed: "ctor_width D st self w = built st self (replicate D w)"
proof -
  define b where "b = brk st"
  define st1 where "st1 = st\<lparr>ints := (ints st)(b \<mapsto> replicate D None), brk := Suc b\<rparr>"
  define st2 where
    "st2 = st1\<lparr>ints := (ints st1)(Suc b \<mapsto> replicate (Suc D) None), brk := Suc (Suc b)\<rparr>"
  define st3 where "st3 = st2\<lparr>ints := (ints st2)(Suc b \<mapsto> replicate D None @ [Some 1])\<rparr>"
  define st4 where
    "st4 = st3\<lparr>ints := (ints st3)(b \<mapsto> map Some (replicate D w),
                                   Suc b \<mapsto> map Some (row_major (replicate D w)))\<rparr>"
  have 1: "new_ints D st = (b, st1)" by (simp add: new_ints_def b_def st1_def)
  have 2: "new_ints (Suc D) st1 = (Suc b, st2)" by (simp add: new_ints_def b_def st1_def st2_def)
  have 3: "st_int st2 (Some (Suc b)) D 1 = Inr st3"
    by (simp add: st_int_def st3_def st2_def st1_def upd_last_cell del: replicate_Suc)
  have 4: "for_loop D (\<lambda>i s.
             bnd (st_int s (Some b) i w) (\<lambda>s1.
             bnd (ld_int s1 (Some (Suc b)) (D - i)) (\<lambda>t.
             st_int s1 (Some (Suc b)) (D - i - 1) (i32 (t * w))))) st3 = Inr st4"
    using width_loop [of st3 b D "Suc b" D w]
    by (simp add: st3_def st2_def st1_def st4_def)
  have 5: "ints st4 b = Some (map Some (replicate D w))"
    "ints st4 (Suc b) = Some (map Some (row_major (replicate D w)))"
    by (simp_all add: st4_def)
  have 6: "length (replicate D w) = D" by simp
  have 7: "put_obj (st4\<lparr>vals := (vals st4)(brk st4 \<mapsto> dat), brk := Suc (brk st4)\<rparr>) self
             \<lparr>shape_ptr = Some b, stride_ptr = Some (Suc b), head = Some (brk st4)\<rparr>
         = install st self (replicate D w) (row_major (replicate D w)) dat" for dat
    by (simp add: put_obj_def install_def st4_def st3_def st2_def st1_def b_def fun_eq_iff)
  show ?thesis
    unfolding ctor_width_def built_def
    by (simp only: 1 2 3 4 Let_def prod.case bnd_simps ctor_tail [OF 5 6] 7)
qed

lemma ctor_array_closed:
  assumes "D \<le> length sh"
  shows "ctor_array D st self sh = built st self (take D sh)"
proof -
  define b where "b = brk st"
  define st1 where "st1 = st\<lparr>ints := (ints st)(b \<mapsto> replicate D None), brk := Suc b\<rparr>"
  define st2 where
    "st2 = st1\<lparr>ints := (ints st1)(Suc b \<mapsto> replicate (Suc D) None), brk := Suc (Suc b)\<rparr>"
  define st3 where "st3 = st2\<lparr>ints := (ints st2)(Suc b \<mapsto> replicate D None @ [Some 1])\<rparr>"
  define st4 where
    "st4 = st3\<lparr>ints := (ints st3)(b \<mapsto> map Some (take D sh),
                                   Suc b \<mapsto> map Some (row_major (take D sh)))\<rparr>"
  have 1: "new_ints D st = (b, st1)" by (simp add: new_ints_def b_def st1_def)
  have 2: "new_ints (Suc D) st1 = (Suc b, st2)" by (simp add: new_ints_def b_def st1_def st2_def)
  have 3: "st_int st2 (Some (Suc b)) D 1 = Inr st3"
    by (simp add: st_int_def st3_def st2_def st1_def upd_last_cell del: replicate_Suc)
  have 4: "for_loop D (\<lambda>i s.
             bnd (arr_at sh i) (\<lambda>v.
             bnd (st_int s (Some b) i v) (\<lambda>s1.
             bnd (ld_int s1 (Some (Suc b)) (D - i)) (\<lambda>t.
             bnd (arr_at sh (D - i - 1)) (\<lambda>e.
             st_int s1 (Some (Suc b)) (D - i - 1) (i32 (t * e))))))) st3 = Inr st4"
    using array_loop [of st3 b D "Suc b" sh D] assms
    by (simp add: st3_def st2_def st1_def st4_def)
  have 5: "ints st4 b = Some (map Some (take D sh))"
    "ints st4 (Suc b) = Some (map Some (row_major (take D sh)))"
    by (simp_all add: st4_def)
  have 6: "length (take D sh) = D" using assms by simp
  have 7: "put_obj (st4\<lparr>vals := (vals st4)(brk st4 \<mapsto> dat), brk := Suc (brk st4)\<rparr>) self
             \<lparr>shape_ptr = Some b, stride_ptr = Some (Suc b), head = Some (brk st4)\<rparr>
         = install st self (take D sh) (row_major (take D sh)) dat" for dat
    by (simp add: put_obj_def install_def st4_def st3_def st2_def st1_def b_def fun_eq_iff)
  show ?thesis
    unfolding ctor_array_def built_def
    by (simp only: 1 2 3 4 Let_def prod.case bnd_simps ctor_tail [OF 5 6] 7)
qed


section \<open>Transposition at a concrete array\<close>

text \<open>
  C1.  \<^verbatim>\<open>transpose(i, j)\<close> exchanges \<^verbatim>\<open>_stride[i + 1]\<close> with \<^verbatim>\<open>_stride[j + 1]\<close> and
  \<^verbatim>\<open>_shape[i + 1]\<close> with \<^verbatim>\<open>_shape[j + 1]\<close>.  On the array of shape \<open>(2, 3, 4)\<close> that the
  shape-list constructor builds, \<^verbatim>\<open>transpose(0, 1)\<close> leaves the shape \<open>(2, 4, 3)\<close>, not
  \<open>(3, 2, 4)\<close>, beside the strides \<open>(4, 12, 1)\<close>; on the rank-2 array of shape \<open>(2, 3)\<close>
  the default \<^verbatim>\<open>transpose(1, 0)\<close> reaches \<^verbatim>\<open>_shape[2]\<close>, one past the end of the buffer.
\<close>

theorem transpose_exchanges_wrong_extents:
  "ctor_list 3 blank 0 [2, 3, 4] = Inr cube234
   \<and> transpose_nd cube234 0 0 1 = Inr cube234t
   \<and> shape cube234t 0 0 = Inr 2 \<and> shape cube234t 0 1 = Inr 4 \<and> shape cube234t 0 2 = Inr 3
   \<and> stride cube234t 0 0 = Inr 4 \<and> stride cube234t 0 1 = Inr 12 \<and> stride cube234t 0 2 = Inr 1
   \<and> transpose_nd mat23 0 1 0 = Inl OutOfBounds"
proof -
  have c: "ctor_list 3 blank 0 [2, 3, 4] = Inr cube234"
    by (simp add: ctor_defs access_defs blank_def cube234_def i32_def numeral_3_eq_3 Let_def fun_eq_iff)
  have t: "transpose_nd cube234 0 0 1 = Inr cube234t"
    by (simp add: transpose_nd_def access_defs cube234_def cube234t_def fun_eq_iff)
  have s: "shape cube234t 0 0 = Inr 2" "shape cube234t 0 1 = Inr 4" "shape cube234t 0 2 = Inr 3"
    "stride cube234t 0 0 = Inr 4" "stride cube234t 0 1 = Inr 12" "stride cube234t 0 2 = Inr 1"
    by (simp_all add: access_defs cube234t_def)
  have o: "transpose_nd mat23 0 1 0 = Inl OutOfBounds"
    by (simp add: transpose_nd_def access_defs mat23_def)
  show ?thesis using c t s o by simp
qed


section \<open>Unary negation\<close>

text \<open>
  C8.  \<^verbatim>\<open>operator-()\<close> does not build, so \<^verbatim>\<open>-a\<close> has no run and no negated array is ever
  returned: line 272 initialises \<^verbatim>\<open>tmp\<close> from the lvalue \<^verbatim>\<open>*this\<close> of the same element
  type, which selects the deleted copy constructor, and line 276 binds the returned
  \<^verbatim>\<open>ndarray<dtype, D> &\<close> to \<^verbatim>\<open>*this\<close>, which is const in this member.
\<close>

theorem neg_does_not_build:
  "neg = Ill_formed ''use of deleted function ndarray(const ndarray&)''
   \<and> bind_lref Mutable Const
       = Ill_formed ''binding reference of type ndarray& to const ndarray discards qualifiers''"
  by (simp add: neg_def select_ctor_def then_build_def bind_lref_def)


section \<open>Concrete runs against the stated claims\<close>

text \<open>
  Move assignment from the array at address 4 into the non-empty array at address 0
  leaves the source non-empty, holding the destination's former six elements; after move
  construction the source is empty and \<^verbatim>\<open>size()\<close> on it dereferences a null pointer.
\<close>

theorem move_assign_counterexample:
  "bnd (move_assign two_mats 0 4) (\<lambda>st. empty_nd st 4) = Inr False
   \<and> bnd (move_assign two_mats 0 4) (\<lambda>st. size_nd st 4) = Inr 6
   \<and> bnd (move_ctor two_mats 8 4) (\<lambda>st. empty_nd st 4) = Inr True
   \<and> bnd (move_ctor two_mats 8 4) (\<lambda>st. size_nd st 4) = Inl NullDeref"
  by (simp add: move_assign_def move_ctor_def access_defs two_mats_def null_nd_def)


text \<open>
  \<^verbatim>\<open>ndarray<T, 2>(65536)\<close>: both extents are positive, the 32-bit product of the extents
  is 0, and \<^verbatim>\<open>size()\<close> is 0, not \<open>4294967296\<close>.
\<close>

theorem ctor_overflow_counterexample:
  "bnd (ctor_width 2 blank 0 65536) (\<lambda>st. size_nd st 0) = Inr 0
   \<and> bnd (ctor_width 2 blank 0 65536) (\<lambda>st. shape st 0 0) = Inr 65536
   \<and> bnd (ctor_width 2 blank 0 65536) (\<lambda>st. shape st 0 1) = Inr 65536
   \<and> (65536::int) * 65536 = 4294967296"
  by (simp add: ctor_defs access_defs blank_def i32_def numeral_2_eq_2 Let_def)


text \<open>
  \<^verbatim>\<open>ndarray<T, 2>(46341)\<close> and \<^verbatim>\<open>ndarray<T, 2>({46341, 46341})\<close>: positive extents of the
  right count, a negative 32-bit product, and the array \<^verbatim>\<open>new\<close> of the elements throws.
\<close>

theorem ctor_bad_length_counterexample:
  "ctor_width 2 blank 0 46341 = Inl BadArrayLength \<and> ctor_list 2 blank 0 [46341, 46341] = Inl BadArrayLength"
  by (simp add: ctor_defs access_defs blank_def i32_def numeral_2_eq_2 Let_def)

section \<open>Strides and size after construction\<close>

lemma row_major_last: "row_major sh ! length sh = 1"
  by (induction sh) simp_all

lemma prod_list_pos: "\<forall>v\<in>set sh. (0::int) < v \<Longrightarrow> 0 < prod_list sh"
  by (induction sh) simp_all

lemma row_major_hd:
  "\<forall>v\<in>set sh. 0 < v \<Longrightarrow> prod_list sh < 2147483648 \<Longrightarrow> hd (row_major sh) = prod_list sh"
proof (induction sh)
  case Nil
  show ?case by simp
next
  case (Cons n ns)
  have n: "1 \<le> n" and ns: "\<forall>v\<in>set ns. 0 < v" using Cons.prems(1) by auto
  have p: "0 < prod_list ns" using ns by (rule prod_list_pos)
  have "1 * prod_list ns \<le> n * prod_list ns" using n p by (intro mult_right_mono) simp_all
  then have le: "prod_list ns \<le> n * prod_list ns" by simp
  have lt: "n * prod_list ns < 2147483648" using Cons.prems(2) by simp
  have "hd (row_major ns) = prod_list ns" using ns le lt by (intro Cons.IH) linarith+
  moreover have "i32 (n * prod_list ns) = n * prod_list ns"
    using p le lt by (intro i32_id) linarith+
  ultimately show ?case by (simp add: mult.commute)
qed

lemma row_major_step:
  "\<forall>v\<in>set sh. 0 < v \<Longrightarrow> prod_list sh < 2147483648 \<Longrightarrow> i < length sh \<Longrightarrow>
   row_major sh ! i = row_major sh ! Suc i * sh ! i"
proof (induction sh arbitrary: i)
  case Nil
  then show ?case by simp
next
  case (Cons n ns)
  have n: "1 \<le> n" and ns: "\<forall>v\<in>set ns. 0 < v" using Cons.prems(1) by auto
  have p: "0 < prod_list ns" using ns by (rule prod_list_pos)
  have "1 * prod_list ns \<le> n * prod_list ns" using n p by (intro mult_right_mono) simp_all
  then have le: "prod_list ns \<le> n * prod_list ns" by simp
  have lt: "n * prod_list ns < 2147483648" using Cons.prems(2) by simp
  have lt': "prod_list ns < 2147483648" using le lt by linarith
  show ?case
  proof (cases i)
    case 0
    have "hd (row_major (n # ns)) = prod_list (n # ns)"
      using Cons.prems(1,2) by (rule row_major_hd)
    moreover have "hd (row_major ns) = prod_list ns" using ns lt' by (rule row_major_hd)
    ultimately show ?thesis using 0 by (simp add: hd_conv_nth mult.commute)
  next
    case (Suc j)
    then show ?thesis using Cons.IH [OF ns lt', of j] Cons.prems(3) by simp
  qed
qed

lemma holds_install:
  "length sh = D \<Longrightarrow> length sd = Suc D \<Longrightarrow> sd ! 0 = int (length dat) \<Longrightarrow>
   holds D (install st self sh sd dat) self sh sd dat"
  by (simp add: holds_def install_def int_buf_def val_buf_def)

lemma size_install:
  "sd \<noteq> [] \<Longrightarrow> size_nd (install st self sh sd dat) self = Inr (hd sd)"
  by (simp add: size_nd_def obj_def ld_int_def install_def hd_conv_nth)

lemma built_ok:
  assumes "\<forall>v\<in>set sh. 0 < v" "prod_list sh < 2147483648"
  shows "built st self sh
       = Inr (install st self sh (row_major sh) (replicate (nat (prod_list sh)) None))"
  using assms row_major_hd [OF assms] prod_list_pos [OF assms(1)] by (simp add: built_def)


lemma for_loop_invariant:
  assumes "\<And>i s s'. P s \<Longrightarrow> body i s = Inr s' \<Longrightarrow> P s'"
  shows "P s \<Longrightarrow> for_loop n body s = Inr s' \<Longrightarrow> P s'"
proof (induction n arbitrary: s')
  case 0
  then show ?case by simp
next
  case (Suc n)
  from Suc.prems(2) obtain m where m: "for_loop n body s = Inr m" "body n m = Inr s'"
    by (auto simp: bnd_eq_Inr)
  have "P m" using Suc.IH [OF Suc.prems(1) m(1)] .
  then show ?case using m(2) by (rule assms)
qed

lemma st_val_frame:
  "st_val s p i c = Inr s' \<Longrightarrow> ints s' = ints s \<and> objs s' = objs s \<and> brk s' = brk s"
  by (auto simp: st_val_def split: option.splits if_splits)

lemma st_val_at_frame:
  "st_val_at s p i c = Inr s' \<Longrightarrow> ints s' = ints s \<and> objs s' = objs s \<and> brk s' = brk s"
  by (auto simp: st_val_at_def dest: st_val_frame split: if_splits)

lemma size_nd_cong:
  "objs s' = objs s \<Longrightarrow> (\<And>q. ld_int s' q 0 = ld_int s q 0) \<Longrightarrow> size_nd s' self = size_nd s self"
  by (simp add: size_nd_def obj_def)

lemma ld_int_cong: "ints s' = ints s \<Longrightarrow> ld_int s' q i = ld_int s q i"
  by (cases q) (simp_all add: ld_int_def)

lemma size_set_raw: "set_raw s self r v = Inr s' \<Longrightarrow> size_nd s' self = size_nd s self"
  by (auto simp: set_raw_def bnd_eq_Inr dest!: st_val_at_frame intro!: size_nd_cong ld_int_cong)

lemma size_set_coo: "set_coo D s self coo v = Inr s' \<Longrightarrow> size_nd s' self = size_nd s self"
  by (auto simp: set_coo_def bnd_eq_Inr dest!: st_val_at_frame intro!: size_nd_cong ld_int_cong)

lemma size_set_var: "set_var s self f args v = Inr s' \<Longrightarrow> size_nd s' self = size_nd s self"
  by (auto simp: set_var_def bnd_eq_Inr dest!: st_val_at_frame intro!: size_nd_cong ld_int_cong)

lemma size_fill:
  assumes "fill s self v = Inr s'"
  shows "size_nd s' self = size_nd s self"
proof -
  have "ints s' = ints s \<and> objs s' = objs s"
  proof (cases "empty_nd s self")
    case (Inl e)
    then show ?thesis using assms by (simp add: fill_def)
  next
    case (Inr e)
    show ?thesis
    proof (cases e)
      case True
      then show ?thesis using assms Inr by (simp add: fill_def)
    next
      case False
      then obtain n :: int and a :: ndarray where l: "for_loop (nat n) (\<lambda>i s. st_val s (head a) i (Some v)) s = Inr s'"
        using assms Inr by (auto simp: fill_def bnd_eq_Inr)
      show ?thesis
        by (rule for_loop_invariant [where P = "\<lambda>x. ints x = ints s \<and> objs x = objs s", OF _ _ l])
           (auto dest: st_val_frame)
    qed
  qed
  then show ?thesis by (auto intro!: size_nd_cong ld_int_cong)
qed

lemma size_plus_assign:
  fixes s :: "('a::ring_1) store"
  assumes "plus_assign s self rhs = Inr s'"
  shows "size_nd s' self = size_nd s self"
proof -
  define N :: int where "N = 1"
  from assms have "pm N s self rhs = Inr s'" by (simp add: plus_assign_def N_def)
  then obtain n :: int and a b :: ndarray where l: "for_loop (nat n) (\<lambda>i s.
       bnd (ld_val s (head b) i) (\<lambda>r.
       bnd (ld_val s (head a) i) (\<lambda>c.
       st_val s (head a) i
         (case (c, r) of (Some u, Some v) \<Rightarrow> Some (u + of_int N * v) | _ \<Rightarrow> None)))) s = Inr s'"
    by (auto simp: pm_def bnd_eq_Inr)
  have "ints s' = ints s \<and> objs s' = objs s"
    by (rule for_loop_invariant [where P = "\<lambda>x. ints x = ints s \<and> objs x = objs s", OF _ _ l])
       (auto simp: bnd_eq_Inr dest: st_val_frame)
  then show ?thesis by (auto intro!: size_nd_cong ld_int_cong)
qed

lemma st_int_cell0:
  "st_int s p i v = Inr s' \<Longrightarrow> 0 < i \<Longrightarrow>
   objs s' = objs s \<and> (\<forall>q. ld_int s' q 0 = ld_int s q 0)"
  by (auto simp: st_int_def ld_int_def split: option.splits if_splits)

lemma swap_int_cell0:
  assumes "swap_int s p i j = Inr s'" "0 < i" "0 < j"
  shows "objs s' = objs s \<and> (\<forall>q. ld_int s' q 0 = ld_int s q 0)"
proof -
  from assms(1) obtain a b m where m: "st_int_at s p i b = Inr m" "st_int_at m p j a = Inr s'"
    by (auto simp: swap_int_def bnd_eq_Inr)
  have 1: "st_int s p (nat i) b = Inr m" "st_int m p (nat j) a = Inr s'"
    using m assms(2,3) by (simp_all add: st_int_at_def)
  show ?thesis
    using st_int_cell0 [OF 1(1)] st_int_cell0 [OF 1(2)] assms(2,3) by simp
qed

lemma size_transpose:
  assumes "transpose_nd s self i j = Inr s'" "0 \<le> i" "0 \<le> j"
  shows "size_nd s' self = size_nd s self"
proof -
  from assms(1) obtain a :: ndarray and m
    where m: "swap_int s (stride_ptr a) (i + 1) (j + 1) = Inr m"
      "swap_int m (shape_ptr a) (i + 1) (j + 1) = Inr s'"
    by (auto simp: transpose_nd_def bnd_eq_Inr)
  have "objs m = objs s \<and> (\<forall>q. ld_int m q 0 = ld_int s q 0)"
    using swap_int_cell0 [OF m(1)] assms(2,3) by simp
  moreover have "objs s' = objs m \<and> (\<forall>q. ld_int s' q 0 = ld_int m q 0)"
    using swap_int_cell0 [OF m(2)] assms(2,3) by simp
  ultimately show ?thesis by (intro size_nd_cong) simp_all
qed


lemma swap_int_closed:
  assumes "ints st p = Some (map Some xs)" "0 \<le> i" "nat i < length xs" "0 \<le> j"
    "nat j < length xs"
  shows "swap_int st (Some p) i j
    = Inr (st\<lparr>ints := (ints st)(p \<mapsto> map Some (xs[nat i := xs ! nat j, nat j := xs ! nat i]))\<rparr>)"
  using assms
  by (simp add: swap_int_def ld_int_at_def ld_int_def st_int_at_def st_int_def map_update)

lemma transpose_closed:
  assumes o: "objs st self = Some \<lparr>shape_ptr = Some sp, stride_ptr = Some tp, head = hp\<rparr>"
    and ne: "sp \<noteq> tp"
    and b: "ints st sp = Some (map Some sh)" "ints st tp = Some (map Some sd)"
      "length sh = D" "length sd = Suc D"
    and r: "0 \<le> i" "i + 1 < int D" "0 \<le> j" "j + 1 < int D"
  shows "transpose_nd st self i j
    = Inr (st\<lparr>ints := (ints st)
            (tp \<mapsto> map Some (sd[nat (i + 1) := sd ! nat (j + 1), nat (j + 1) := sd ! nat (i + 1)]),
             sp \<mapsto> map Some (sh[nat (i + 1) := sh ! nat (j + 1), nat (j + 1) := sh ! nat (i + 1)]))\<rparr>)"
proof -
  let ?sd = "sd[nat (i + 1) := sd ! nat (j + 1), nat (j + 1) := sd ! nat (i + 1)]"
  let ?sh = "sh[nat (i + 1) := sh ! nat (j + 1), nat (j + 1) := sh ! nat (i + 1)]"
  let ?m = "st\<lparr>ints := (ints st)(tp \<mapsto> map Some ?sd)\<rparr>"
  have 0: "obj st self = Inr \<lparr>shape_ptr = Some sp, stride_ptr = Some tp, head = hp\<rparr>"
    using o by (simp add: obj_def)
  have 1: "swap_int st (Some tp) (i + 1) (j + 1) = Inr ?m"
    using b r by (intro swap_int_closed) simp_all
  have "ints ?m sp = Some (map Some sh)" using b(1) ne by simp
  then have 2: "swap_int ?m (Some sp) (i + 1) (j + 1)
      = Inr (?m\<lparr>ints := (ints ?m)(sp \<mapsto> map Some ?sh)\<rparr>)"
    using b r by (intro swap_int_closed) simp_all
  have 3: "?m\<lparr>ints := (ints ?m)(sp \<mapsto> map Some ?sh)\<rparr>
      = st\<lparr>ints := (ints st)(tp \<mapsto> map Some ?sd, sp \<mapsto> map Some ?sh)\<rparr>"
    by simp
  show ?thesis
    unfolding transpose_nd_def
    by (simp only: 0 1 2 3 bnd_simps ndarray.simps)
qed

lemma transpose_returns:
  assumes "holds D s self sh sd dat" "0 \<le> i" "i + 1 < int D" "0 \<le> j" "j + 1 < int D"
  shows "returns (transpose_nd s self i j)"
proof -
  from assms(1) obtain a sp tp hp where x: "objs s self = Some a" "shape_ptr a = Some sp"
      "stride_ptr a = Some tp" "head a = Some hp" "sp \<noteq> tp"
      "ints s sp = Some (map Some sh)" "ints s tp = Some (map Some sd)"
      "length sh = D" "length sd = Suc D"
    by (auto simp: holds_def int_buf_def val_buf_def split: option.splits)
  have "a = \<lparr>shape_ptr = Some sp, stride_ptr = Some tp, head = Some hp\<rparr>"
    using x(2-4) by (cases a) simp
  then have "objs s self = Some \<lparr>shape_ptr = Some sp, stride_ptr = Some tp, head = Some hp\<rparr>"
    using x(1) by simp
  from transpose_closed [OF this x(5-9) assms(2-5)] show ?thesis
    by (simp add: returns_def)
qed

lemma exits_built: "exits (built st self sh) \<longleftrightarrow> (\<exists>v\<in>set sh. v \<le> 0)"
  by (auto simp: exits_def built_def not_less)

lemma built_result:
  assumes "length sh = D" "\<forall>v\<in>set sh. 0 < v" "prod_list sh < 2147483648"
  shows "\<exists>st' sd dat. built st self sh = Inr st' \<and> holds D st' self sh sd dat \<and> sd ! D = 1
           \<and> (\<forall>i<D. sd ! i = sd ! Suc i * sh ! i) \<and> size_nd st' self = Inr (prod_list sh)"
proof -
  let ?dat = "replicate (nat (prod_list sh)) None"
  let ?st' = "install st self sh (row_major sh) ?dat"
  have p: "0 < prod_list sh" using assms(2) by (rule prod_list_pos)
  have h: "hd (row_major sh) = prod_list sh" using assms(2,3) by (rule row_major_hd)
  have "built st self sh = Inr ?st'" using assms(2,3) by (rule built_ok)
  moreover have "holds D ?st' self sh (row_major sh) ?dat"
    using assms(1) p h by (intro holds_install) (simp_all add: hd_conv_nth)
  moreover have "row_major sh ! D = 1" using row_major_last [of sh] assms(1) by simp
  moreover have "\<forall>i<D. row_major sh ! i = row_major sh ! Suc i * sh ! i"
    using row_major_step [OF assms(2,3)] assms(1) by simp
  moreover have "size_nd ?st' self = Inr (prod_list sh)"
    using size_install [of "row_major sh" st self sh ?dat] h by simp
  ultimately show ?thesis by blast
qed

text \<open>
  C3 (as amended).  For rank \<open>D \<ge> 1\<close> and \<open>D\<close> positive extents whose product is below
  \<open>2^31\<close>, each constructor (shape list, shape array, uniform width) returns an array
  with \<^verbatim>\<open>_stride[D] = 1\<close>, \<^verbatim>\<open>_stride[i] = _stride[i + 1] * _shape[i]\<close> for every \<open>i < D\<close>,
  and \<^verbatim>\<open>size()\<close> equal to the product of the extents; and on any array, whenever an
  element assignment (through \<^verbatim>\<open>operator[]\<close> or \<^verbatim>\<open>operator()\<close>), a fill, \<^verbatim>\<open>+=\<close> or a
  transposition of axes \<open>i, j \<ge> 0\<close> returns, \<^verbatim>\<open>size()\<close> is what it was before; the
  transposition of a fully allocated array does return when both axes are below \<open>D - 1\<close>.
\<close>

theorem construction_strides_and_size:
  fixes st s :: "('a::ring_1) store"
  assumes "0 < D" "length sh = D" "\<forall>v\<in>set sh. 0 < v" "prod_list sh < 2147483648"
  shows "(\<exists>st' sd dat. ctor_list D st self sh = Inr st' \<and> holds D st' self sh sd dat
            \<and> sd ! D = 1 \<and> (\<forall>i<D. sd ! i = sd ! Suc i * sh ! i)
            \<and> size_nd st' self = Inr (prod_list sh))
       \<and> (\<exists>st' sd dat. ctor_array D st self sh = Inr st' \<and> holds D st' self sh sd dat
            \<and> sd ! D = 1 \<and> (\<forall>i<D. sd ! i = sd ! Suc i * sh ! i)
            \<and> size_nd st' self = Inr (prod_list sh))
       \<and> (sh = replicate D w \<longrightarrow>
           (\<exists>st' sd dat. ctor_width D st self w = Inr st' \<and> holds D st' self sh sd dat
            \<and> sd ! D = 1 \<and> (\<forall>i<D. sd ! i = sd ! Suc i * sh ! i)
            \<and> size_nd st' self = Inr (prod_list sh)))
       \<and> (\<forall>s'. set_raw s self r v = Inr s' \<longrightarrow> size_nd s' self = size_nd s self)
       \<and> (\<forall>s'. set_coo D s self coo v = Inr s' \<longrightarrow> size_nd s' self = size_nd s self)
       \<and> (\<forall>s'. set_var s self first args v = Inr s' \<longrightarrow> size_nd s' self = size_nd s self)
       \<and> (\<forall>s'. fill s self v = Inr s' \<longrightarrow> size_nd s' self = size_nd s self)
       \<and> (\<forall>s'. plus_assign s self rhs = Inr s' \<longrightarrow> size_nd s' self = size_nd s self)
       \<and> (\<forall>s'. 0 \<le> i \<longrightarrow> 0 \<le> j \<longrightarrow> transpose_nd s self i j = Inr s'
              \<longrightarrow> size_nd s' self = size_nd s self)
       \<and> (\<forall>sh' sd' dat'. holds D s self sh' sd' dat' \<longrightarrow> 0 \<le> i \<longrightarrow> i + 1 < int D
              \<longrightarrow> 0 \<le> j \<longrightarrow> j + 1 < int D \<longrightarrow> returns (transpose_nd s self i j))"
proof -
  note b = built_result [OF assms(2-4), of st self]
  have 1: "ctor_list D st self sh = built st self sh"
    using assms(2) by (simp add: ctor_list_closed)
  have 2: "ctor_array D st self sh = built st self sh"
    using assms(2) ctor_array_closed [of D sh st self] by simp
  have 3: "sh = replicate D w \<Longrightarrow> ctor_width D st self w = built st self sh"
    by (simp add: ctor_width_closed)
  have 4: "holds D s self sh' sd' dat' \<Longrightarrow> 0 \<le> i \<Longrightarrow> i + 1 < int D
      \<Longrightarrow> 0 \<le> j \<Longrightarrow> j + 1 < int D \<Longrightarrow> returns (transpose_nd s self i j)" for sh' sd' dat'
    by (rule transpose_returns)
  show ?thesis
    unfolding 1 2
    using b 3 4 size_set_raw [of s self r v] size_set_coo [of D s self coo v]
      size_set_var [of s self first args v] size_fill [of s self v]
      size_plus_assign [of s self rhs] size_transpose [of s self i j]
    by (intro conjI impI allI) simp_all
qed

theorem construction_strides_and_size_witness:
  "(\<exists>st'. ctor_list 3 blank 0 [2, 3, 4] = Inr st' \<and> size_nd st' 0 = Inr 24)
   \<and> (\<exists>st'. ctor_array 3 blank 0 [2, 3, 4] = Inr st' \<and> size_nd st' 0 = Inr 24)
   \<and> (\<exists>st'. ctor_width 2 blank 0 3 = Inr st' \<and> size_nd st' 0 = Inr 9)
   \<and> size_nd mat23 0 = Inr 6
   \<and> (\<exists>s'. set_raw mat23 0 1 7 = Inr s' \<and> size_nd s' 0 = Inr 6)
   \<and> (\<exists>s'. set_coo 2 mat23 0 [1, 1] 7 = Inr s' \<and> size_nd s' 0 = Inr 6)
   \<and> (\<exists>s'. set_var mat23 0 1 [1] 7 = Inr s' \<and> size_nd s' 0 = Inr 6)
   \<and> (\<exists>s'. fill mat23 0 7 = Inr s' \<and> size_nd s' 0 = Inr 6)
   \<and> (\<exists>s'. plus_assign mat23 0 0 = Inr s' \<and> size_nd s' 0 = Inr 6)
   \<and> size_nd cube234 0 = Inr 24
   \<and> holds 3 cube234 0 [2, 3, 4] [24, 12, 4, 1] (replicate 24 None)
   \<and> returns (transpose_nd cube234 0 0 1)
   \<and> (\<exists>s'. transpose_nd cube234 0 0 1 = Inr s' \<and> size_nd s' 0 = Inr 24)"
proof -
  have p3: "\<forall>v\<in>set [2, 3, 4::int]. 0 < v" "prod_list [2, 3, 4::int] < 2147483648"
    and p2: "\<forall>v\<in>set [3, 3::int]. 0 < v" "prod_list [3, 3::int] < 2147483648"
    by simp_all
  note t = construction_strides_and_size [where D = 3 and sh = "[2, 3, 4]" and st = blank
          and self = 0 and s = cube234 and i = 0 and j = 1, OF _ _ p3]
  note u = construction_strides_and_size [where D = 2 and sh = "[3, 3]" and st = blank
          and self = 0 and w = 3 and s = mat23 and r = 1 and v = 7 and coo = "[1, 1]"
          and first = 1 and args = "[1]" and rhs = 0, OF _ _ p2]
  have z: "size_nd mat23 0 = Inr 6" by (simp add: access_defs mat23_def)
  have zc: "size_nd cube234 0 = Inr 24" by (simp add: access_defs cube234_def)
  have hc: "holds 3 cube234 0 [2, 3, 4] [24, 12, 4, 1] (replicate 24 None)"
    by (simp add: holds_def int_buf_def val_buf_def cube234_def)
  have r: "replicate 2 (3::int) = [3, 3]" by (simp add: numeral_2_eq_2)
  have t0: "(0::nat) < 3" "length [2, 3, 4::int] = 3" and u0: "(0::nat) < 2" "length [3, 3::int] = 2"
    by simp_all
  note t1 = t [OF t0]
  note u1 = u [OF u0]
  note t2 = t1 [THEN conjunct2]
  note t9 = t2 [THEN conjunct2, THEN conjunct2, THEN conjunct2, THEN conjunct2, THEN conjunct2,
      THEN conjunct2, THEN conjunct2]
  note u3 = u1 [THEN conjunct2, THEN conjunct2]
  note u4 = u3 [THEN conjunct2]
  note u5 = u4 [THEN conjunct2]
  note u6 = u5 [THEN conjunct2]
  note u7 = u6 [THEN conjunct2]
  note u8 = u7 [THEN conjunct2]
  have c1: "\<exists>st'. ctor_list 3 blank 0 [2, 3, 4] = Inr st' \<and> size_nd st' 0 = Inr 24"
    using t1 [THEN conjunct1] by auto
  have c2: "\<exists>st'. ctor_array 3 blank 0 [2, 3, 4] = Inr st' \<and> size_nd st' 0 = Inr 24"
    using t2 [THEN conjunct1] by auto
  have c3: "\<exists>st'. ctor_width 2 blank 0 3 = Inr st' \<and> size_nd st' 0 = Inr 9"
    using u3 [THEN conjunct1] r by auto
  obtain s4 where s4: "set_raw mat23 0 1 7 = Inr s4"
    by (simp add: access_defs mat23_def)
  obtain s5 where s5: "set_coo 2 mat23 0 [1, 1] 7 = Inr s5"
    by (simp add: set_coo_def offset_coo_def arr_at_def access_defs mat23_def numeral_2_eq_2
        i32_def)
  obtain s6 where s6: "set_var mat23 0 1 [1] 7 = Inr s6"
    by (simp add: set_var_def offset_var_def access_defs mat23_def i32_def)
  obtain s7 where s7: "fill mat23 0 7 = Inr s7"
    by (simp add: fill_def access_defs mat23_def numeral_eq_Suc)
  obtain s8 where s8: "plus_assign mat23 0 0 = Inr s8"
    by (simp add: plus_assign_def pm_def access_defs mat23_def numeral_eq_Suc)
  have c4: "\<exists>s'. set_raw mat23 0 1 7 = Inr s' \<and> size_nd s' 0 = Inr 6"
    using u4 [THEN conjunct1, THEN spec, THEN mp, OF s4] s4 z by simp
  have c5: "\<exists>s'. set_coo 2 mat23 0 [1, 1] 7 = Inr s' \<and> size_nd s' 0 = Inr 6"
    using u5 [THEN conjunct1, THEN spec, THEN mp, OF s5] s5 z by simp
  have c6: "\<exists>s'. set_var mat23 0 1 [1] 7 = Inr s' \<and> size_nd s' 0 = Inr 6"
    using u6 [THEN conjunct1, THEN spec, THEN mp, OF s6] s6 z by simp
  have c7: "\<exists>s'. fill mat23 0 7 = Inr s' \<and> size_nd s' 0 = Inr 6"
    using u7 [THEN conjunct1, THEN spec, THEN mp, OF s7] s7 z by simp
  have c8: "\<exists>s'. plus_assign mat23 0 0 = Inr s' \<and> size_nd s' 0 = Inr 6"
    using u8 [THEN conjunct1, THEN spec, THEN mp, OF s8] s8 z by simp
  have c9: "returns (transpose_nd cube234 0 0 1)"
    using t9 [THEN conjunct2, THEN spec, THEN spec, THEN spec, THEN mp, OF hc] by simp
  then obtain s10 where s10: "transpose_nd cube234 0 0 1 = Inr s10"
    by (cases "transpose_nd cube234 0 0 1") (simp_all add: returns_def)
  have c10: "\<exists>s'. transpose_nd cube234 0 0 1 = Inr s' \<and> size_nd s' 0 = Inr 24"
    using t9 [THEN conjunct1, THEN spec, THEN mp, THEN mp, THEN mp, OF _ _ s10] s10 zc
    by simp
  show ?thesis
    by (intro conjI c1 c2 c3 z c4 c5 c6 c7 c8 zc hc c9 c10)
qed

section \<open>Failure of construction\<close>

text \<open>
  C7 (as amended).  For rank \<open>D \<ge> 1\<close>, construction ends in a diagnostic and
  \<^verbatim>\<open>exit(0)\<close> exactly when a requested extent is \<open>\<le> 0\<close> or, for the shape-list
  constructor, the list's length differs from \<open>D\<close> (the shape-array constructor reads
  the first \<open>D\<close> entries of the caller's array).  For positive extents of the right count
  whose product is below \<open>2^31\<close>, construction returns.
\<close>

theorem construction_failure:
  assumes "0 < D"
  shows "(exits (ctor_width D st self w) \<longleftrightarrow> w \<le> 0)
       \<and> (exits (ctor_list D st self l) \<longleftrightarrow> length l \<noteq> D \<or> (\<exists>v\<in>set l. v \<le> 0))
       \<and> (D \<le> length sh \<longrightarrow>
            (exits (ctor_array D st self sh) \<longleftrightarrow> (\<exists>v\<in>set (take D sh). v \<le> 0)))
       \<and> (0 < w \<longrightarrow> w ^ D < 2147483648 \<longrightarrow> returns (ctor_width D st self w))
       \<and> (length l = D \<longrightarrow> (\<forall>v\<in>set l. 0 < v) \<longrightarrow> prod_list l < 2147483648
            \<longrightarrow> returns (ctor_list D st self l))
       \<and> (length sh = D \<longrightarrow> (\<forall>v\<in>set sh. 0 < v) \<longrightarrow> prod_list sh < 2147483648
            \<longrightarrow> returns (ctor_array D st self sh))"
proof -
  have w: "exits (ctor_width D st self w) \<longleftrightarrow> w \<le> 0"
    using assms by (simp add: ctor_width_closed exits_built)
  have l: "exits (ctor_list D st self l) \<longleftrightarrow> length l \<noteq> D \<or> (\<exists>v\<in>set l. v \<le> 0)"
    by (simp add: ctor_list_closed exits_built) (simp add: exits_def)
  have a: "D \<le> length sh \<Longrightarrow>
      (exits (ctor_array D st self sh) \<longleftrightarrow> (\<exists>v\<in>set (take D sh). v \<le> 0))"
    by (simp add: ctor_array_closed exits_built)
  have rw: "0 < w \<Longrightarrow> w ^ D < 2147483648 \<Longrightarrow> returns (ctor_width D st self w)"
    using built_ok [of "replicate D w" st self]
    by (simp add: ctor_width_closed returns_def prod_list_replicate)
  have rl: "length l = D \<Longrightarrow> \<forall>v\<in>set l. 0 < v \<Longrightarrow> prod_list l < 2147483648
      \<Longrightarrow> returns (ctor_list D st self l)"
    using built_ok [of l st self] by (simp add: ctor_list_closed returns_def)
  have ra: "length sh = D \<Longrightarrow> \<forall>v\<in>set sh. 0 < v \<Longrightarrow> prod_list sh < 2147483648
      \<Longrightarrow> returns (ctor_array D st self sh)"
    using built_ok [of sh st self] ctor_array_closed [of D sh st self]
    by (simp add: returns_def)
  show ?thesis using w l a rw rl ra by blast
qed


theorem construction_failure_witness:
  "exits (ctor_width 2 blank 0 0) \<and> \<not> exits (ctor_width 2 blank 0 3)
   \<and> returns (ctor_width 2 blank 0 3)
   \<and> exits (ctor_list 2 blank 0 [2]) \<and> exits (ctor_list 2 blank 0 [2, - 1])
   \<and> \<not> exits (ctor_list 2 blank 0 [2, 3]) \<and> returns (ctor_list 2 blank 0 [2, 3])
   \<and> exits (ctor_array 2 blank 0 [0, 3]) \<and> returns (ctor_array 2 blank 0 [2, 3])"
  using construction_failure [where D = 2 and st = blank and self = 0 and w = 0
          and l = "[2]" and sh = "[0, 3]"]
    construction_failure [where D = 2 and st = blank and self = 0 and w = 3
          and l = "[2, - 1]" and sh = "[2, 3]"]
    construction_failure [where D = 2 and st = blank and self = 0 and w = 3
          and l = "[2, 3]" and sh = "[2, 3]"]
  by simp

section \<open>The constructor template in closed form\<close>

lemma fresh_lt:
  assumes "fresh st"
  shows "ints st p = Some u \<Longrightarrow> p < brk st" "vals st p = Some w \<Longrightarrow> p < brk st"
    "objs st p = Some a \<Longrightarrow> p < brk st"
  using assms unfolding fresh_def by (auto simp: not_le [symmetric])

lemma upd_next_cell:
  "n < length xs \<Longrightarrow> length xs = D \<Longrightarrow>
   (map Some (take n xs) @ replicate (D - n) None)[n := Some (xs ! n)]
   = map Some (take (Suc n) xs) @ replicate (D - Suc n) None"
  using upd_next_some [of "map Some (take n xs)" n "D - Suc n" "Some (xs ! n)"]
  by (simp add: Suc_diff_Suc take_Suc_conv_app_nth)

lemma copy_meta_loop:
  assumes x: "objs st x = Some ox" "shape_ptr ox = Some xs" "stride_ptr ox = Some xt"
      "ints st xs = Some (map Some sh)" "ints st xt = Some (map Some sd)"
      "length sh = D" "length sd = Suc D"
    and new: "ints st sp = Some (replicate D None)" "ints st tp = Some (replicate (Suc D) None)"
    and ne: "sp \<noteq> tp" "xs \<noteq> sp" "xs \<noteq> tp" "xt \<noteq> sp" "xt \<noteq> tp"
  shows "n \<le> D \<Longrightarrow>
    for_loop n (\<lambda>i s.
               bnd (shape s x (int i)) (\<lambda>v.
               bnd (st_int s (Some sp) i v) (\<lambda>s1.
               bnd (stride s1 x (int i)) (\<lambda>w.
               st_int s1 (Some tp) (i + 1) w)))) st
    = Inr (st\<lparr>ints := (ints st)
             (sp \<mapsto> map Some (take n sh) @ replicate (D - n) None,
              tp \<mapsto> None # map Some (take n (tl sd)) @ replicate (D - n) None)\<rparr>)"
proof (induction n)
  case 0
  show ?case using new ne(1) by (simp add: fun_upd_idem)
next
  case (Suc n)
  then have n: "n < D" by simp
  let ?A = "map Some (take n sh) @ replicate (D - n) None"
  let ?B = "None # map Some (take n (tl sd)) @ replicate (D - n) None"
  let ?sn = "st\<lparr>ints := (ints st)(sp \<mapsto> ?A, tp \<mapsto> ?B)\<rparr>"
  have tl: "length (tl sd) = D" "tl sd ! n = sd ! Suc n"
    using x(7) n by (simp_all add: nth_tl)
  have a: "?A[n := Some (sh ! n)] = map Some (take (Suc n) sh) @ replicate (D - Suc n) None"
    using n x(6) by (intro upd_next_cell) simp_all
  have c: "?B[n + 1 := Some (sd ! Suc n)]
      = None # map Some (take (Suc n) (tl sd)) @ replicate (D - Suc n) None"
    using upd_next_cell [of n "tl sd" D] n tl by simp
  have r1: "shape ?sn x (int n) = Inr (sh ! n)"
    using x n ne by (simp add: shape_def obj_def ld_int_at_def ld_int_def)
  have s1: "st_int ?sn (Some sp) n v = Inr (?sn\<lparr>ints := (ints ?sn)(sp \<mapsto> ?A[n := Some v])\<rparr>)"
    for v
    using n ne(1) x(6) by (simp add: st_int_def)
  let ?s1 = "?sn\<lparr>ints := (ints ?sn)(sp \<mapsto> ?A[n := Some (sh ! n)])\<rparr>"
  have r2: "stride ?s1 x (int n) = Inr (sd ! Suc n)"
    using x n ne by (simp add: stride_def obj_def ld_int_at_def ld_int_def nat_add_distrib)
  have s2: "st_int ?s1 (Some tp) (n + 1) w
      = Inr (?s1\<lparr>ints := (ints ?s1)(tp \<mapsto> ?B[n + 1 := Some w])\<rparr>)" for w
    using n ne(1) tl(1) by (simp add: st_int_def)
  have e: "?s1\<lparr>ints := (ints ?s1)(tp \<mapsto> ?B[n + 1 := Some (sd ! Suc n)])\<rparr>
      = st\<lparr>ints := (ints st)
             (sp \<mapsto> map Some (take (Suc n) sh) @ replicate (D - Suc n) None,
              tp \<mapsto> None # map Some (take (Suc n) (tl sd)) @ replicate (D - Suc n) None)\<rparr>"
    unfolding a c using ne(1) by (simp add: fun_eq_iff)
  show ?case
    by (simp only: for_loop.simps Suc.IH [OF less_imp_le [OF n]] bnd_simps r1 s1 r2 s2 e)
qed

lemma copy_data_loop:
  assumes "objs st x = Some ox" "head ox = Some xh" "vals st xh = Some dat"
    "vals st hp = Some (replicate (length dat) None)" "hp \<noteq> xh"
  shows "n \<le> length dat \<Longrightarrow>
    for_loop n (\<lambda>i s. bnd (at_raw s x (int i)) (\<lambda>c.
                 st_val s (Some hp) i (map_option conv c))) st
    = Inr (st\<lparr>vals := (vals st)
            (hp \<mapsto> take n (map (map_option conv) dat) @ replicate (length dat - n) None)\<rparr>)"
proof (induction n)
  case 0
  show ?case using assms(4) by (simp add: fun_upd_idem)
next
  case (Suc n)
  then have n: "n < length dat" by simp
  let ?cd = "map (map_option conv) dat"
  let ?A = "take n ?cd @ replicate (length dat - n) None"
  let ?sn = "st\<lparr>vals := (vals st)(hp \<mapsto> ?A)\<rparr>"
  have a: "?A[n := map_option conv (dat ! n)]
      = take (Suc n) ?cd @ replicate (length dat - Suc n) None"
    using upd_next_some [of "take n ?cd" n "length dat - Suc n" "map_option conv (dat ! n)"] n
    by (simp add: Suc_diff_Suc take_Suc_conv_app_nth)
  have r1: "at_raw ?sn x (int n) = Inr (dat ! n)"
    using assms n by (simp add: at_raw_def obj_def ld_val_at_def ld_val_def)
  have s1: "st_val ?sn (Some hp) n c = Inr (?sn\<lparr>vals := (vals ?sn)(hp \<mapsto> ?A[n := c])\<rparr>)"
    for c
    using n by (simp add: st_val_def)
  have e: "?sn\<lparr>vals := (vals ?sn)(hp \<mapsto> ?A[n := map_option conv (dat ! n)])\<rparr>
      = st\<lparr>vals := (vals st)
            (hp \<mapsto> take (Suc n) ?cd @ replicate (length dat - Suc n) None)\<rparr>"
    unfolding a by (simp add: fun_eq_iff)
  show ?case
    by (simp only: for_loop.simps Suc.IH [OF less_imp_le [OF n]] bnd_simps r1 s1 e)
qed

lemma copy_ctor_closed:
  assumes h: "holds D st x sh sd dat" and f: "fresh st"
  shows "copy_ctor D conv st self x = Inr (install st self sh sd (map (map_option conv) dat))"
proof -
  from h obtain ox xs xt xh where x: "objs st x = Some ox" "shape_ptr ox = Some xs"
      "stride_ptr ox = Some xt" "head ox = Some xh"
      "ints st xs = Some (map Some sh)" "ints st xt = Some (map Some sd)"
      "vals st xh = Some dat" "length sh = D" "length sd = Suc D" "sd ! 0 = int (length dat)"
    by (auto simp: holds_def int_buf_def val_buf_def split: option.splits)
  define b where "b = brk st"
  have lt: "xs < b" "xt < b" "xh < b"
    using fresh_lt [OF f] x(5,6,7) unfolding b_def by simp_all
  define st1 where "st1 = st\<lparr>ints := (ints st)(b \<mapsto> replicate D None), brk := Suc b\<rparr>"
  define st2 where
    "st2 = st1\<lparr>ints := (ints st1)(Suc b \<mapsto> replicate (Suc D) None), brk := Suc (Suc b)\<rparr>"
  define st3 where
    "st3 = st2\<lparr>ints := (ints st2)(b \<mapsto> map Some sh, Suc b \<mapsto> None # map Some (tl sd))\<rparr>"
  define st4 where "st4 = st3\<lparr>ints := (ints st3)(Suc b \<mapsto> map Some sd)\<rparr>"
  define st5 where
    "st5 = st4\<lparr>vals := (vals st4)(Suc (Suc b) \<mapsto> replicate (length dat) None),
              brk := Suc (Suc (Suc b))\<rparr>"
  define st6 where
    "st6 = st5\<lparr>vals := (vals st5)(Suc (Suc b) \<mapsto> map (map_option conv) dat)\<rparr>"
  have sdc: "sd = sd ! 0 # tl sd" using x(9) by (cases sd) simp_all
  have 0: "empty_nd st x = Inr False" using x by (simp add: empty_nd_def obj_def)
  have 1: "new_ints D st = (b, st1)" by (simp add: new_ints_def b_def st1_def)
  have 2: "new_ints (Suc D) st1 = (Suc b, st2)" by (simp add: new_ints_def b_def st1_def st2_def)
  have 3: "for_loop D (\<lambda>i s.
               bnd (shape s x (int i)) (\<lambda>v.
               bnd (st_int s (Some b) i v) (\<lambda>s1.
               bnd (stride s1 x (int i)) (\<lambda>w.
               st_int s1 (Some (Suc b)) (i + 1) w)))) st2 = Inr st3"
    using copy_meta_loop [of st2 x ox xs xt sh sd D b "Suc b" D] x lt
    by (simp add: st2_def st1_def st3_def)
  have 4: "size_nd st3 x = Inr (sd ! 0)"
    using x lt by (simp add: size_nd_def obj_def ld_int_def st3_def st2_def st1_def)
  have ms: "Some (sd ! 0) # map Some (tl sd) = map Some sd"
    by (subst (3) sdc) simp
  have 5: "st_int st3 (Some (Suc b)) 0 (sd ! 0) = Inr st4"
    by (simp add: st_int_def st3_def st4_def st2_def st1_def fun_eq_iff ms)
  have 6: "size_nd st4 x = Inr (sd ! 0)"
    using x lt by (simp add: size_nd_def obj_def ld_int_def st4_def st3_def st2_def st1_def)
  have 7: "new_vals (sd ! 0) st4 = Inr (Suc (Suc b), st5)"
    using x(10) by (simp add: new_vals_def st5_def st4_def st3_def st2_def st1_def)
  have 8: "ld_int st5 (Some (Suc b)) 0 = Inr (sd ! 0)"
    using x(9) by (simp add: ld_int_def st5_def st4_def)
  have 9: "for_loop (nat (sd ! 0)) (\<lambda>i s.
               bnd (at_raw s x (int i)) (\<lambda>c.
               st_val s (Some (Suc (Suc b))) i (map_option conv c))) st5 = Inr st6"
    using copy_data_loop [of st5 x ox xh dat "Suc (Suc b)" "length dat" conv] x lt
    by (simp add: st5_def st4_def st3_def st2_def st1_def st6_def)
  have 10: "put_obj st6 self
             \<lparr>shape_ptr = Some b, stride_ptr = Some (Suc b), head = Some (Suc (Suc b))\<rparr>
         = install st self sh sd (map (map_option conv) dat)"
    by (simp add: put_obj_def install_def st6_def st5_def st4_def st3_def st2_def st1_def b_def
        fun_eq_iff)
  show ?thesis
    unfolding copy_ctor_def
    by (simp only: 0 1 2 3 4 5 6 7 8 9 10 Let_def prod.case bnd_simps if_False)
qed

lemma copy_ctor_empty:
  "objs st x = Some ox \<Longrightarrow> stride_ptr ox = None \<Longrightarrow>
   copy_ctor D conv st self x = Inr (put_obj st self null_nd)"
  by (simp add: copy_ctor_def empty_nd_def obj_def)

section \<open>Preservation of the class invariant\<close>

lemma allocatedE:
  assumes "allocated D st a"
  obtains sp tp hp sh sd dat where
    "a = \<lparr>shape_ptr = Some sp, stride_ptr = Some tp, head = Some hp\<rparr>" "sp \<noteq> tp"
    "ints st sp = Some (map Some sh)" "ints st tp = Some (map Some sd)" "vals st hp = Some dat"
    "length sh = D" "length sd = Suc D" "sd ! 0 = int (length dat)"
    "\<forall>e\<in>set sh. 0 < e" "int (length dat) = prod_list sh"
proof -
  from assms obtain sp tp hp bs bt bd where p: "shape_ptr a = Some sp" "stride_ptr a = Some tp"
      "head a = Some hp" "ints st sp = Some bs" "ints st tp = Some bt" "vals st hp = Some bd"
      "sp \<noteq> tp" "length bs = D" "length bt = Suc D" "None \<notin> set bs" "None \<notin> set bt"
      "bt ! 0 = Some (int (length bd))"
      "\<forall>e\<in>set (map the bs). 0 < e" "int (length bd) = prod_list (map the bs)"
    by (auto simp: allocated_def split: option.splits)
  have m: "map Some (map the xs) = xs" if "None \<notin> set xs" for xs :: "int option list"
    using that by (induction xs) auto
  have a: "a = \<lparr>shape_ptr = Some sp, stride_ptr = Some tp, head = Some hp\<rparr>"
    using p(1-3) by (cases a) simp
  have "map the bt ! 0 = int (length bd)" using p(9,12) by (simp add: nth_map)
  then show ?thesis
    using that [of sp tp hp "map the bs" "map the bt" bd] a p m [OF p(10)] m [OF p(11)]
    by simp
qed

lemma allocatedI:
  assumes "shape_ptr a = Some sp" "stride_ptr a = Some tp" "head a = Some hp" "sp \<noteq> tp"
    "ints st sp = Some (map Some sh)" "ints st tp = Some (map Some sd)" "vals st hp = Some dat"
    "length sh = D" "length sd = Suc D" "sd ! 0 = int (length dat)"
    "\<forall>e\<in>set sh. 0 < e" "int (length dat) = prod_list sh"
  shows "allocated D st a"
proof -
  have "map the (map Some sh) = sh" by (simp add: comp_def)
  then show ?thesis using assms by (auto simp: allocated_def)
qed

lemma holdsE:
  assumes "holds D st s sh sd dat"
  obtains a sp tp hp where "objs st s = Some a"
    "a = \<lparr>shape_ptr = Some sp, stride_ptr = Some tp, head = Some hp\<rparr>" "sp \<noteq> tp"
    "ints st sp = Some (map Some sh)" "ints st tp = Some (map Some sd)" "vals st hp = Some dat"
    "length sh = D" "length sd = Suc D" "sd ! 0 = int (length dat)"
proof -
  from assms obtain a sp tp hp where p: "objs st s = Some a" "shape_ptr a = Some sp"
      "stride_ptr a = Some tp" "head a = Some hp" "sp \<noteq> tp"
      "ints st sp = Some (map Some sh)" "ints st tp = Some (map Some sd)"
      "vals st hp = Some dat" "length sh = D" "length sd = Suc D" "sd ! 0 = int (length dat)"
    by (auto simp: holds_def int_buf_def val_buf_def split: option.splits)
  have "a = \<lparr>shape_ptr = Some sp, stride_ptr = Some tp, head = Some hp\<rparr>"
    using p(2-4) by (cases a) simp
  then show ?thesis using that p by blast
qed

lemma allocated_holds:
  assumes "objs st s = Some a" "allocated D st a"
  shows "\<exists>sh sd dat. holds D st s sh sd dat"
proof -
  from assms(2) obtain sp tp hp sh sd dat where
    "a = \<lparr>shape_ptr = Some sp, stride_ptr = Some tp, head = Some hp\<rparr>" "sp \<noteq> tp"
    "ints st sp = Some (map Some sh)" "ints st tp = Some (map Some sd)" "vals st hp = Some dat"
    "length sh = D" "length sd = Suc D" "sd ! 0 = int (length dat)"
    "\<forall>e\<in>set sh. 0 < e" "int (length dat) = prod_list sh"
    by (rule allocatedE)
  then have "holds D st s sh sd dat"
    using assms(1) by (simp add: holds_def int_buf_def val_buf_def)
  then show ?thesis by blast
qed

lemma allocated_frame:
  assumes "allocated D st a"
    and "\<And>p. p \<in> int_ptrs a \<Longrightarrow> ints st' p = ints st p"
    and "\<And>p. head a = Some p \<Longrightarrow> vals st' p = vals st p"
  shows "allocated D st' a"
proof -
  from assms(1) obtain sp tp hp where p: "shape_ptr a = Some sp" "stride_ptr a = Some tp"
      "head a = Some hp"
    by (auto simp: allocated_def split: option.splits)
  have "ints st' sp = ints st sp" "ints st' tp = ints st tp" "vals st' hp = vals st hp"
    using assms(2) [of sp] assms(2) [of tp] assms(3) [of hp] p by (simp_all add: int_ptrs_def)
  then show ?thesis using assms(1) p by (simp add: allocated_def)
qed

lemma allocated_lt:
  assumes "allocated D st a" "fresh st"
  shows "\<And>p. p \<in> int_ptrs a \<Longrightarrow> p < brk st" "\<And>p. head a = Some p \<Longrightarrow> p < brk st"
proof -
  from assms(1) obtain sp tp hp bs bt bd where p: "shape_ptr a = Some sp" "stride_ptr a = Some tp"
      "head a = Some hp" "ints st sp = Some bs" "ints st tp = Some bt" "vals st hp = Some bd"
    by (auto simp: allocated_def split: option.splits)
  show "\<And>p. p \<in> int_ptrs a \<Longrightarrow> p < brk st"
    using p fresh_lt [OF assms(2)] by (auto simp: int_ptrs_def)
  show "\<And>p. head a = Some p \<Longrightarrow> p < brk st"
    using p fresh_lt [OF assms(2)] by auto
qed

lemma heap_invI:
  assumes "fresh st" "\<And>s a. objs st s = Some a \<Longrightarrow> a = null_nd \<or> allocated D st a"
    "\<And>s t a b. objs st s = Some a \<Longrightarrow> objs st t = Some b \<Longrightarrow> s \<noteq> t \<Longrightarrow> apart a b"
  shows "heap_inv D st"
  using assms unfolding heap_inv_def by blast

lemma heap_invD:
  assumes "heap_inv D st"
  shows "fresh st" "\<And>s a. objs st s = Some a \<Longrightarrow> a = null_nd \<or> allocated D st a"
    "\<And>s t a b. objs st s = Some a \<Longrightarrow> objs st t = Some b \<Longrightarrow> s \<noteq> t \<Longrightarrow> apart a b"
  using assms unfolding heap_inv_def by blast+

lemma apart_null [simp]: "apart null_nd b" "apart a null_nd"
  by (simp_all add: apart_def int_ptrs_def null_nd_def)

lemma apart_sym: "apart a b \<Longrightarrow> apart b a"
  by (auto simp: apart_def)

lemma allocated_same:
  "allocated D st a \<Longrightarrow> ints st' = ints st \<Longrightarrow> vals st' = vals st \<Longrightarrow> allocated D st' a"
  by (rule allocated_frame) simp_all

lemma heap_inv_objs:
  assumes inv: "heap_inv D st"
    and same: "ints st' = ints st" "vals st' = vals st" "brk st \<le> brk st'"
    and dom: "\<And>s a. objs st' s = Some a \<Longrightarrow> s < brk st'"
    and two: "\<And>s a. objs st' s = Some a \<Longrightarrow> a = null_nd \<or> (\<exists>t. objs st t = Some a)"
    and ap: "\<And>s t a b. objs st' s = Some a \<Longrightarrow> objs st' t = Some b \<Longrightarrow> s \<noteq> t \<Longrightarrow> apart a b"
  shows "heap_inv D st'"
proof (rule heap_invI)
  have f: "fresh st" using inv by (rule heap_invD)
  show "fresh st'"
    unfolding fresh_def
  proof (intro allI impI conjI)
    fix p assume p: "brk st' \<le> p"
    then have "brk st \<le> p" using same(3) by simp
    then show "ints st' p = None" "vals st' p = None"
      using f same(1,2) by (simp_all add: fresh_def)
    show "objs st' p = None"
    proof (cases "objs st' p")
      case None
      then show ?thesis .
    next
      case (Some a)
      then show ?thesis using dom [of p a] p by simp
    qed
  qed
  show "a = null_nd \<or> allocated D st' a" if "objs st' s = Some a" for s a
  proof -
    from two [OF that] show ?thesis
    proof
      assume "a = null_nd" then show ?thesis by simp
    next
      assume "\<exists>t. objs st t = Some a"
      then obtain t where "objs st t = Some a" by blast
      then have "a = null_nd \<or> allocated D st a" using heap_invD(2) [OF inv] by blast
      then show ?thesis using allocated_same [OF _ same(1,2)] by blast
    qed
  qed
  show "apart a b" if "objs st' s = Some a" "objs st' t = Some b" "s \<noteq> t" for s t a b
    using ap that by blast
qed

lemma heap_inv_new_obj: "heap_inv D st \<Longrightarrow> heap_inv D (st\<lparr>brk := Suc (brk st)\<rparr>)"
proof (rule heap_inv_objs [where st = st])
  assume inv: "heap_inv D st"
  show "heap_inv D st" by fact
  show "\<And>s a. objs (st\<lparr>brk := Suc (brk st)\<rparr>) s = Some a \<Longrightarrow> s < brk (st\<lparr>brk := Suc (brk st)\<rparr>)"
    using fresh_lt(3) [OF heap_invD(1) [OF inv]] by (simp add: less_Suc_eq)
  show "\<And>s t a b. objs (st\<lparr>brk := Suc (brk st)\<rparr>) s = Some a \<Longrightarrow>
        objs (st\<lparr>brk := Suc (brk st)\<rparr>) t = Some b \<Longrightarrow> s \<noteq> t \<Longrightarrow> apart a b"
    using heap_invD(3) [OF inv] by simp
qed (auto)

lemma heap_inv_put_null:
  assumes inv: "heap_inv D st" and lt: "self < brk st"
  shows "heap_inv D (put_obj st self null_nd)"
proof (rule heap_inv_objs [OF inv])
  let ?st' = "put_obj st self null_nd"
  show "\<And>s a. objs ?st' s = Some a \<Longrightarrow> s < brk ?st'"
    using fresh_lt(3) [OF heap_invD(1) [OF inv]] lt
    by (auto simp: put_obj_def split: if_splits)
  show "\<And>s a. objs ?st' s = Some a \<Longrightarrow> a = null_nd \<or> (\<exists>t. objs st t = Some a)"
    by (auto simp: put_obj_def split: if_splits)
  show "\<And>s t a b. objs ?st' s = Some a \<Longrightarrow> objs ?st' t = Some b \<Longrightarrow> s \<noteq> t \<Longrightarrow> apart a b"
    using heap_invD(3) [OF inv] by (auto simp: put_obj_def split: if_splits)
qed (simp_all add: put_obj_def)

lemma nd_eta [simp]:
  "\<lparr>shape_ptr = shape_ptr b, stride_ptr = stride_ptr b, head = head b\<rparr> = (b :: ndarray)"
  by (cases b) simp

lemma move_ctor_closed:
  "objs st x = Some b \<Longrightarrow>
   move_ctor st self x = Inr (st\<lparr>objs := (objs st)(self \<mapsto> b, x \<mapsto> null_nd)\<rparr>)"
  by (simp add: move_ctor_def obj_def put_obj_def)

lemma move_assign_closed:
  "objs st self = Some a \<Longrightarrow> objs st x = Some b \<Longrightarrow>
   move_assign st self x = Inr (st\<lparr>objs := (objs st)(self \<mapsto> b, x \<mapsto> a)\<rparr>)"
  by (simp add: move_assign_def obj_def put_obj_def)

lemma heap_inv_move_ctor:
  assumes inv: "heap_inv D st" and lt: "self < brk st" and r: "move_ctor st self x = Inr st'"
  shows "heap_inv D st'"
proof -
  from r obtain b where b: "objs st x = Some b"
    by (auto simp: move_ctor_def obj_def bnd_eq_Inr split: option.splits)
  have st': "st' = st\<lparr>objs := (objs st)(self \<mapsto> b, x \<mapsto> null_nd)\<rparr>"
    using r move_ctor_closed [OF b, of self] by simp
  show ?thesis
  proof (rule heap_inv_objs [OF inv])
    show "\<And>s a. objs st' s = Some a \<Longrightarrow> s < brk st'"
      using fresh_lt(3) [OF heap_invD(1) [OF inv]] lt b
      by (auto simp: st' split: if_splits)
    show "\<And>s a. objs st' s = Some a \<Longrightarrow> a = null_nd \<or> (\<exists>t. objs st t = Some a)"
      using b by (auto simp: st' split: if_splits)
    show "apart a c" if "objs st' s = Some a" "objs st' t = Some c" "s \<noteq> t" for s t a c
    proof -
      have x: "objs st' x = Some null_nd" by (simp add: st')
      consider "s = x" | "t = x" | "s \<noteq> x" "t \<noteq> x" by blast
      then show ?thesis
      proof cases
        case 1 then show ?thesis using that x by simp
      next
        case 2 then show ?thesis using that x by simp
      next
        case 3
        have sa: "objs st (if s = self then x else s) = Some a"
          using that(1) 3 b by (auto simp: st' split: if_splits)
        have tc: "objs st (if t = self then x else t) = Some c"
          using that(2) 3 b by (auto simp: st' split: if_splits)
        show ?thesis
          using heap_invD(3) [OF inv sa tc] that(3) 3 by (auto split: if_splits)
      qed
    qed
  qed (simp_all add: st')
qed

lemma heap_inv_move_assign:
  assumes inv: "heap_inv D st" and r: "move_assign st self x = Inr st'"
  shows "heap_inv D st'"
proof -
  from r obtain a b where ab: "objs st self = Some a" "objs st x = Some b"
    by (auto simp: move_assign_def obj_def bnd_eq_Inr split: option.splits)
  have st': "st' = st\<lparr>objs := (objs st)(self \<mapsto> b, x \<mapsto> a)\<rparr>"
    using r move_assign_closed [OF ab] by simp
  define f where "f s = (if s = self then x else if s = x then self else s)" for s
  have look: "objs st' s = objs st (f s)" for s
    using ab by (auto simp: st' f_def)
  have inj: "f s = f t \<Longrightarrow> s = t" for s t
    by (auto simp: f_def split: if_splits)
  show ?thesis
  proof (rule heap_inv_objs [OF inv])
    show "\<And>s a. objs st' s = Some a \<Longrightarrow> s < brk st'"
      using fresh_lt(3) [OF heap_invD(1) [OF inv]] ab
      by (auto simp: st' split: if_splits)
    show "\<And>s a. objs st' s = Some a \<Longrightarrow> a = null_nd \<or> (\<exists>t. objs st t = Some a)"
      unfolding look by blast
    show "apart c d" if "objs st' s = Some c" "objs st' t = Some d" "s \<noteq> t" for s t c d
      using heap_invD(3) [OF inv, of "f s" c "f t" d] that inj unfolding look by blast
  qed (simp_all add: st')
qed

lemma heap_inv_install:
  assumes inv: "heap_inv D st" and lt: "self < brk st"
    and len: "length sh = D" "length sd = Suc D" "sd ! 0 = int (length dat)"
      "\<forall>e\<in>set sh. 0 < e" "int (length dat) = prod_list sh"
  shows "heap_inv D (install st self sh sd dat)"
proof (rule heap_invI)
  let ?st' = "install st self sh sd dat"
  let ?new = "\<lparr>shape_ptr = Some (brk st), stride_ptr = Some (Suc (brk st)),
                head = Some (Suc (Suc (brk st)))\<rparr>"
  have f: "fresh st" using inv by (rule heap_invD)
  have old: "ints ?st' p = ints st p" "vals ?st' p = vals st p" if "p < brk st" for p
    using that by (simp_all add: install_def)
  have keep: "allocated D ?st' a" if "allocated D st a" for a
    using that allocated_lt [OF that f] old by (intro allocated_frame [OF that]) simp_all
  have new: "allocated D ?st' ?new"
    using len by (intro allocatedI [of _ "brk st" "Suc (brk st)" "Suc (Suc (brk st))" _ sh sd dat])
      (simp_all add: install_def)
  have ap: "apart ?new c" if "c = null_nd \<or> allocated D st c" for c
    using that
  proof
    assume "c = null_nd" then show ?thesis by simp
  next
    assume c: "allocated D st c"
    show ?thesis
      using allocated_lt [OF c f] by (fastforce simp: apart_def int_ptrs_def)
  qed
  show "fresh ?st'"
    using f lt unfolding fresh_def by (auto simp: install_def)
  show "a = null_nd \<or> allocated D ?st' a" if "objs ?st' s = Some a" for s a
  proof (cases "s = self")
    case True
    then have "a = ?new" using that by (simp add: install_def)
    then show ?thesis using new by simp
  next
    case False
    then have "objs st s = Some a" using that by (simp add: install_def)
    then show ?thesis using heap_invD(2) [OF inv] keep by blast
  qed
  show "apart a c" if "objs ?st' s = Some a" "objs ?st' t = Some c" "s \<noteq> t" for s t a c
  proof -
    consider "s = self" | "t = self" | "s \<noteq> self" "t \<noteq> self" by blast
    then show ?thesis
    proof cases
      case 1
      then have "a = ?new" "objs st t = Some c" using that by (simp_all add: install_def)
      then show ?thesis using ap [of c] heap_invD(2) [OF inv] by blast
    next
      case 2
      then have "c = ?new" "objs st s = Some a" using that by (simp_all add: install_def)
      then show ?thesis using ap [of a] heap_invD(2) [OF inv] apart_sym by blast
    next
      case 3
      then have "objs st s = Some a" "objs st t = Some c" using that by (simp_all add: install_def)
      then show ?thesis using heap_invD(3) [OF inv] that(3) by blast
    qed
  qed
qed











lemma dtor_closed:
  assumes "objs st self = Some a" "a = null_nd \<or> allocated D st a"
  shows "dtor st self = Inr (release st self a)"
  using assms(2)
proof
  assume "a = null_nd"
  then show ?thesis
    using assms(1)
    by (simp add: dtor_def obj_def delete_vals_def delete_ints_def release_def null_nd_def
        int_ptrs_def)
next
  assume "allocated D st a"
  then obtain sp tp hp sh sd dat where a:
    "a = \<lparr>shape_ptr = Some sp, stride_ptr = Some tp, head = Some hp\<rparr>" "sp \<noteq> tp"
    "ints st sp = Some (map Some sh)" "ints st tp = Some (map Some sd)" "vals st hp = Some dat"
    by (rule allocatedE)
  show ?thesis
    using assms(1) a
    by (simp add: dtor_def obj_def delete_vals_def delete_ints_def release_def int_ptrs_def
        fun_eq_iff)
qed

lemma heap_inv_release:
  assumes inv: "heap_inv D st" and a: "objs st self = Some a"
  shows "heap_inv D (release st self a)"
proof (rule heap_invI)
  let ?st' = "release st self a"
  show "fresh ?st'"
    using heap_invD(1) [OF inv] unfolding fresh_def by (simp add: release_def)
  have o: "objs st s = Some c \<and> s \<noteq> self" if "objs ?st' s = Some c" for s c
    using that by (auto simp: release_def split: if_splits)
  show "c = null_nd \<or> allocated D ?st' c" if "objs ?st' s = Some c" for s c
  proof -
    have c: "objs st s = Some c" "s \<noteq> self" using o [OF that] by simp_all
    have ap: "apart c a" using heap_invD(3) [OF inv c(1) a c(2)] .
    from heap_invD(2) [OF inv c(1)] show ?thesis
    proof
      assume "c = null_nd" then show ?thesis by simp
    next
      assume al: "allocated D st c"
      have "allocated D ?st' c"
        using ap by (intro allocated_frame [OF al]) (auto simp: release_def apart_def)
      then show ?thesis by simp
    qed
  qed
  show "apart c d" if "objs ?st' s = Some c" "objs ?st' t = Some d" "s \<noteq> t" for s t c d
    using heap_invD(3) [OF inv, of s c t d] o [OF that(1)] o [OF that(2)] that(3) by simp
qed

lemma heap_inv_dtor:
  assumes inv: "heap_inv D st" and r: "dtor st self = Inr st'"
  shows "heap_inv D st'"
proof -
  from r obtain a where a: "objs st self = Some a"
    by (auto simp: dtor_def obj_def bnd_eq_Inr split: option.splits)
  have "dtor st self = Inr (release st self a)"
    using a heap_invD(2) [OF inv a] by (rule dtor_closed)
  then show ?thesis using r heap_inv_release [OF inv a] by simp
qed






lemma heap_inv_copy_ctor:
  assumes inv: "heap_inv D st" and lt: "self < brk st"
    and r: "copy_ctor D conv st self x = Inr st'"
  shows "heap_inv D st'"
proof -
  from r obtain ox where ox: "objs st x = Some ox"
    by (auto simp: copy_ctor_def empty_nd_def obj_def bnd_eq_Inr split: option.splits)
  from heap_invD(2) [OF inv ox] show ?thesis
  proof
    assume "ox = null_nd"
    then have "stride_ptr ox = None" by (simp add: null_nd_def)
    then have "st' = put_obj st self null_nd"
      using copy_ctor_empty [OF ox, of D conv self] r by simp
    then show ?thesis using heap_inv_put_null [OF inv lt] by simp
  next
    assume "allocated D st ox"
    then obtain sp tp hp sh sd dat where p:
      "ox = \<lparr>shape_ptr = Some sp, stride_ptr = Some tp, head = Some hp\<rparr>" "sp \<noteq> tp"
      "ints st sp = Some (map Some sh)" "ints st tp = Some (map Some sd)"
      "vals st hp = Some dat"
      "length sh = D" "length sd = Suc D" "sd ! 0 = int (length dat)"
      "\<forall>e\<in>set sh. 0 < e" "int (length dat) = prod_list sh"
      by (rule allocatedE)
    have h: "holds D st x sh sd dat"
      using ox p by (simp add: holds_def int_buf_def val_buf_def)
    have st': "st' = install st self sh sd (map (map_option conv) dat)"
      using copy_ctor_closed [OF h heap_invD(1) [OF inv], where conv = conv and self = self] r
      by simp
    show ?thesis
      unfolding st' using p(6-10) by (intro heap_inv_install [OF inv lt]) simp_all
  qed
qed

lemma heap_inv_construct:
  assumes "construct False cat = Builds run" "heap_inv D st" "self < brk st"
    "run D conv st self x = Inr st'"
  shows "heap_inv D st'"
proof -
  have "run = run_ctor Template_105" using assms(1) by (simp add: construct_other_type)
  then have "copy_ctor D conv st self x = Inr st'" using assms(4) by (simp add: run_ctor_def)
  with assms(2,3) show ?thesis by (rule heap_inv_copy_ctor)
qed

lemma bndE:
  assumes "bnd m f = Inr y"
  obtains v where "m = Inr v" "f v = Inr y"
  using assms by (cases m) simp_all

lemma heap_inv_std_swap:
  assumes inv: "heap_inv D st" and r: "std_swap st a b = Inr st'"
  shows "heap_inv D st'"
proof -
  let ?st0 = "st\<lparr>brk := Suc (brk st)\<rparr>"
  have r0: "bnd (move_ctor ?st0 (brk st) a) (\<lambda>st1.
            bnd (move_assign st1 a b) (\<lambda>st2.
            bnd (move_assign st2 b (brk st)) (\<lambda>st3.
            dtor st3 (brk st)))) = Inr st'"
    using r by (simp only: std_swap_def new_obj_def Let_def prod.case)
  from r0 obtain st1 where 1: "move_ctor ?st0 (brk st) a = Inr st1"
    and r1: "bnd (move_assign st1 a b) (\<lambda>st2.
             bnd (move_assign st2 b (brk st)) (\<lambda>st3. dtor st3 (brk st))) = Inr st'"
    by (rule bndE)
  from r1 obtain st2 where 2: "move_assign st1 a b = Inr st2"
    and r2: "bnd (move_assign st2 b (brk st)) (\<lambda>st3. dtor st3 (brk st)) = Inr st'"
    by (rule bndE)
  from r2 obtain st3 where 3: "move_assign st2 b (brk st) = Inr st3"
    and 4: "dtor st3 (brk st) = Inr st'"
    by (rule bndE)
  have h0: "heap_inv D ?st0" using inv by (rule heap_inv_new_obj)
  have lt: "brk st < brk ?st0" by simp
  have "heap_inv D st1" using h0 lt 1 by (rule heap_inv_move_ctor)
  then have "heap_inv D st2" using 2 by (rule heap_inv_move_assign)
  then have "heap_inv D st3" using 3 by (rule heap_inv_move_assign)
  then show ?thesis using 4 by (rule heap_inv_dtor)
qed

section \<open>Moves\<close>

text \<open>
  C6 (as amended).  Move construction from \<open>x\<close> into another address leaves \<open>x\<close> with
  three null pointers (\<^verbatim>\<open>empty()\<close> is true) and gives the new object \<open>x\<close>'s former
  pointers; no buffer is touched, so the new object has the shape, strides and elements
  \<open>x\<close> had.  Move assignment exchanges the pointers of the two objects: the destination
  gets what \<open>x\<close> had, and \<open>x\<close> gets what the destination had, so \<open>x\<close> is empty afterwards
  exactly when the destination was empty before.
\<close>

theorem move_transfers:
  assumes "objs st x = Some b" "self \<noteq> x"
  shows "(\<exists>st'. move_ctor st self x = Inr st' \<and> objs st' self = Some b
            \<and> objs st' x = Some null_nd \<and> empty_nd st' x = Inr True
            \<and> ints st' = ints st \<and> vals st' = vals st
            \<and> (\<forall>sh sd dat. holds D st x sh sd dat \<longrightarrow> holds D st' self sh sd dat))
       \<and> (\<forall>a. objs st self = Some a \<longrightarrow>
            (\<exists>st'. move_assign st self x = Inr st' \<and> objs st' self = Some b
              \<and> objs st' x = Some a \<and> empty_nd st' x = Inr (stride_ptr a = None)
              \<and> ints st' = ints st \<and> vals st' = vals st
              \<and> (\<forall>sh sd dat. holds D st x sh sd dat \<longrightarrow> holds D st' self sh sd dat)))"
proof (intro conjI allI impI)
  let ?s1 = "st\<lparr>objs := (objs st)(self \<mapsto> b, x \<mapsto> null_nd)\<rparr>"
  have "move_ctor st self x = Inr ?s1" using assms(1) by (rule move_ctor_closed)
  moreover have "holds D st x sh sd dat \<longrightarrow> holds D ?s1 self sh sd dat" for sh sd dat
    using assms by (auto simp: holds_def int_buf_def val_buf_def split: option.splits)
  ultimately show "\<exists>st'. move_ctor st self x = Inr st' \<and> objs st' self = Some b
            \<and> objs st' x = Some null_nd \<and> empty_nd st' x = Inr True
            \<and> ints st' = ints st \<and> vals st' = vals st
            \<and> (\<forall>sh sd dat. holds D st x sh sd dat \<longrightarrow> holds D st' self sh sd dat)"
    using assms(2) by (intro exI [of _ ?s1]) (simp add: empty_nd_def obj_def null_nd_def)
next
  fix a assume a: "objs st self = Some a"
  let ?s2 = "st\<lparr>objs := (objs st)(self \<mapsto> b, x \<mapsto> a)\<rparr>"
  have "move_assign st self x = Inr ?s2" using a assms(1) by (rule move_assign_closed)
  moreover have "holds D st x sh sd dat \<longrightarrow> holds D ?s2 self sh sd dat" for sh sd dat
    using assms by (auto simp: holds_def int_buf_def val_buf_def split: option.splits)
  ultimately show "\<exists>st'. move_assign st self x = Inr st' \<and> objs st' self = Some b
              \<and> objs st' x = Some a \<and> empty_nd st' x = Inr (stride_ptr a = None)
              \<and> ints st' = ints st \<and> vals st' = vals st
              \<and> (\<forall>sh sd dat. holds D st x sh sd dat \<longrightarrow> holds D st' self sh sd dat)"
    using assms(2) by (intro exI [of _ ?s2]) (simp add: empty_nd_def obj_def)
qed

theorem move_transfers_witness:
  "(\<exists>st'. move_ctor two_mats 8 4 = Inr st' \<and> empty_nd st' 4 = Inr True
      \<and> holds 2 st' 8 [1, 2] [2, 2, 1] [Some 7, Some 8])
   \<and> (\<exists>st'. move_assign two_mats 0 4 = Inr st' \<and> empty_nd st' 4 = Inr False
      \<and> holds 2 st' 0 [1, 2] [2, 2, 1] [Some 7, Some 8])"
proof -
  let ?b = "\<lparr>shape_ptr = Some 5, stride_ptr = Some 6, head = Some 7\<rparr>"
  let ?a = "\<lparr>shape_ptr = Some 1, stride_ptr = Some 2, head = Some 3\<rparr>"
  have x: "objs two_mats 4 = Some ?b" and s: "objs two_mats 0 = Some ?a"
    by (simp_all add: two_mats_def)
  have h: "holds 2 two_mats 4 [1, 2] [2, 2, 1] [Some 7, Some 8]"
    by (simp add: holds_def int_buf_def val_buf_def two_mats_def)
  have n: "(8::nat) \<noteq> 4" "(0::nat) \<noteq> 4" by simp_all
  have 1: "\<exists>st'. move_ctor two_mats 8 4 = Inr st' \<and> empty_nd st' 4 = Inr True
      \<and> holds 2 st' 8 [1, 2] [2, 2, 1] [Some 7, Some 8]"
    using move_transfers [OF x n(1), where D = 2, THEN conjunct1] h by blast
  have 2: "\<exists>st'. move_assign two_mats 0 4 = Inr st' \<and> empty_nd st' 4 = Inr False
      \<and> holds 2 st' 0 [1, 2] [2, 2, 1] [Some 7, Some 8]"
    using move_transfers [OF x n(2), where D = 2, THEN conjunct2, THEN spec, THEN mp, OF s] h
    by auto
  show ?thesis using 1 2 by (rule conjI)
qed

section \<open>Copies from another element type and from the same\<close>

lemma ptrs_lt:
  assumes inv: "heap_inv D st" and a: "objs st s = Some a"
  shows "\<And>p. p \<in> int_ptrs a \<Longrightarrow> p < brk st" "\<And>p. head a = Some p \<Longrightarrow> p < brk st"
proof -
  from heap_invD(2) [OF inv a]
  have "(\<forall>p\<in>int_ptrs a. p < brk st) \<and> (\<forall>p. head a = Some p \<longrightarrow> p < brk st)"
  proof
    assume "a = null_nd"
    then show ?thesis by (simp add: null_nd_def int_ptrs_def)
  next
    assume "allocated D st a"
    then show ?thesis using allocated_lt [OF _ heap_invD(1) [OF inv]] by blast
  qed
  then show "\<And>p. p \<in> int_ptrs a \<Longrightarrow> p < brk st" "\<And>p. head a = Some p \<Longrightarrow> p < brk st"
    by blast+
qed

lemma holds_frame:
  assumes h: "holds D st s sh sd dat" and o: "objs st' s = objs st s"
    and i: "\<And>a p. objs st s = Some a \<Longrightarrow> p \<in> int_ptrs a \<Longrightarrow> ints st' p = ints st p"
    and v: "\<And>a p. objs st s = Some a \<Longrightarrow> head a = Some p \<Longrightarrow> vals st' p = vals st p"
  shows "holds D st' s sh sd dat"
proof -
  from h obtain a sp tp hp where p: "objs st s = Some a"
    "a = \<lparr>shape_ptr = Some sp, stride_ptr = Some tp, head = Some hp\<rparr>" "sp \<noteq> tp"
    "ints st sp = Some (map Some sh)" "ints st tp = Some (map Some sd)" "vals st hp = Some dat"
    "length sh = D" "length sd = Suc D" "sd ! 0 = int (length dat)"
    by (rule holdsE)
  have "ints st' sp = ints st sp" "ints st' tp = ints st tp" "vals st' hp = vals st hp"
    using i [OF p(1), of sp] i [OF p(1), of tp] v [OF p(1), of hp] p(2)
    by (simp_all add: int_ptrs_def)
  then show ?thesis
    using p o by (simp add: holds_def int_buf_def val_buf_def)
qed

lemma set_raw_holds:
  assumes h: "holds D st self sh sd dat" and i: "i < length dat"
  shows "\<exists>st'' hp. set_raw st self (int i) v = Inr st'' \<and> objs st'' = objs st \<and>
           (\<exists>a. objs st self = Some a \<and> head a = Some hp) \<and>
           ints st'' = ints st \<and> vals st'' = (vals st)(hp \<mapsto> dat[i := Some v]) \<and>
           holds D st'' self sh sd (dat[i := Some v])"
proof -
  from h obtain a sp tp hp where p: "objs st self = Some a"
    "a = \<lparr>shape_ptr = Some sp, stride_ptr = Some tp, head = Some hp\<rparr>" "sp \<noteq> tp"
    "ints st sp = Some (map Some sh)" "ints st tp = Some (map Some sd)" "vals st hp = Some dat"
    "length sh = D" "length sd = Suc D" "sd ! 0 = int (length dat)"
    by (rule holdsE)
  let ?s = "st\<lparr>vals := (vals st)(hp \<mapsto> dat[i := Some v])\<rparr>"
  have "set_raw st self (int i) v = Inr ?s"
    using p i by (simp add: set_raw_def obj_def st_val_at_def st_val_def)
  moreover have "holds D ?s self sh sd (dat[i := Some v])"
    using p by (simp add: holds_def int_buf_def val_buf_def)
  ultimately show ?thesis using p(1,2) by (intro exI [of _ ?s] exI [of _ hp]) simp
qed

lemma set_raw_other:
  assumes h: "holds D st x sh sd dat" and a: "objs st self = Some a" and b: "objs st x = Some b"
    and ne: "set_option (head a) \<inter> set_option (head b) = {}"
    and r: "set_raw st self i v = Inr st''"
  shows "holds D st'' x sh sd dat"
proof -
  from r a obtain hp bd where s: "head a = Some hp" "vals st hp = Some bd"
      "st'' = st\<lparr>vals := (vals st)(hp \<mapsto> bd[nat i := Some v])\<rparr>"
    by (auto simp: set_raw_def obj_def st_val_at_def st_val_def split: if_splits option.splits)
  show ?thesis
  proof (rule holds_frame [OF h])
    show "objs st'' x = objs st x" by (simp add: s(3))
    show "ints st'' p = ints st p" for p by (simp add: s(3))
    show "vals st'' p = vals st p" if "objs st x = Some c" "head c = Some p" for c p
      using that b ne s(1) by (auto simp: s(3))
  qed
qed

lemma is_copyI:
  assumes hs: "holds D st' self sh sd cp" and hx: "holds D st' x sh sd dat"
    and ox: "objs st' x = objs st x"
    and a: "objs st' self = Some a" and b: "objs st' x = Some b"
    and ne: "set_option (head a) \<inter> set_option (head b) = {}"
    and fr: "\<And>p. p \<in> int_ptrs a \<Longrightarrow> ints st p = None"
      "\<And>p. head a = Some p \<Longrightarrow> vals st p = None"
  shows "is_copy D st st' self x sh sd dat cp"
  unfolding is_copy_def
proof (intro conjI allI impI ballI)
  show "holds D st' self sh sd cp" "holds D st' x sh sd dat" "objs st' x = objs st x"
    by fact+
  show "ints st p = None" if "objs st' self = Some c" "p \<in> int_ptrs c" for c p
    using that a fr(1) by simp
  show "vals st p = None" if "objs st' self = Some c" "p \<in> set_option (head c)" for c p
    using that a fr(2) by (cases "head c") auto
  show "holds D st'' x sh sd dat" if "set_raw st' self i v = Inr st''" for i v st''
    using hx a b ne that by (rule set_raw_other)
  show "\<exists>st''. set_raw st' self (int i) v = Inr st'' \<and>
           holds D st'' self sh sd (cp[i := Some v]) \<and> holds D st'' x sh sd dat"
    if "i < length cp" for i v
  proof -
    from set_raw_holds [OF hs that, of v] obtain st'' where
      s: "set_raw st' self (int i) v = Inr st''" "holds D st'' self sh sd (cp[i := Some v])"
      by blast
    have "holds D st'' x sh sd dat" using hx a b ne s(1) by (rule set_raw_other)
    then show ?thesis using s by blast
  qed
qed

text \<open>
  Construction from an array of another element type builds, the constructor template
  being selected, and returns on every fully allocated source, also a transposed one: the
  new array has the source's extents and strides and, position by position, the source's
  elements converted, in three buffers at addresses that were not live before, and
  assigning to its elements leaves the source as it was.
\<close>

lemma converting_copy_is_independent:
  assumes inv: "heap_inv D st" and x: "holds D st x sh sd dat" and ne: "self \<noteq> x"
  shows "\<exists>run st'. construct False cat = Builds run \<and> run D conv st self x = Inr st'
           \<and> is_copy D st st' self x sh sd dat (map (map_option conv) dat)"
proof -
  have f: "fresh st" using inv by (rule heap_invD)
  let ?cp = "map (map_option conv) dat"
  let ?st' = "install st self sh sd ?cp"
  let ?new = "\<lparr>shape_ptr = Some (brk st), stride_ptr = Some (Suc (brk st)),
                head = Some (Suc (Suc (brk st)))\<rparr>"
  from x obtain ox sp tp hp where p: "objs st x = Some ox"
    "ox = \<lparr>shape_ptr = Some sp, stride_ptr = Some tp, head = Some hp\<rparr>" "sp \<noteq> tp"
    "ints st sp = Some (map Some sh)" "ints st tp = Some (map Some sd)" "vals st hp = Some dat"
    "length sh = D" "length sd = Suc D" "sd ! 0 = int (length dat)"
    by (rule holdsE)
  have lt: "\<And>q. q \<in> int_ptrs ox \<Longrightarrow> q < brk st" "\<And>q. head ox = Some q \<Longrightarrow> q < brk st"
    using ptrs_lt [OF inv p(1)] by blast+
  have c: "copy_ctor D conv st self x = Inr ?st'" using x f by (rule copy_ctor_closed)
  have hs: "holds D ?st' self sh sd ?cp" using p(7-9) by (intro holds_install) simp_all
  have ox: "objs ?st' x = objs st x" using ne by (simp add: install_def)
  have hx: "holds D ?st' x sh sd dat"
  proof (rule holds_frame [OF x ox])
    show "ints ?st' q = ints st q" if "objs st x = Some c" "q \<in> int_ptrs c" for c q
      using that p(1) lt(1) [of q] by (simp add: install_def)
    show "vals ?st' q = vals st q" if "objs st x = Some c" "head c = Some q" for c q
      using that p(1) lt(2) [of q] by (simp add: install_def)
  qed
  have a: "objs ?st' self = Some ?new" by (simp add: install_def)
  have b: "objs ?st' x = Some ox" using ox p(1) by simp
  have "is_copy D st ?st' self x sh sd dat ?cp"
  proof (rule is_copyI [OF hs hx ox a b])
    show "set_option (head ?new) \<inter> set_option (head ox) = {}"
      using lt(2) [of "Suc (Suc (brk st))"] by (cases "head ox") auto
    show "ints st q = None" if "q \<in> int_ptrs ?new" for q
      using that f unfolding fresh_def by (auto simp: int_ptrs_def)
    show "vals st q = None" if "head ?new = Some q" for q
      using that f unfolding fresh_def by auto
  qed
  moreover have "run_ctor Template_105 D conv st self x = Inr ?st'"
    using c by (simp add: run_ctor_def)
  ultimately show ?thesis using construct_other_type [of cat] by blast
qed

text \<open>
  C5.  Copy construction from an array of the same element type (\<^verbatim>\<open>ndarray<dtype, D> b(a);\<close>
  or \<^verbatim>\<open>ndarray<dtype, D> b = a;\<close>) initialises from an lvalue of the class's own type and
  selects the deleted copy constructor, and copy assignment needs the same initialisation
  at line 133: neither builds, so a copy of an array of the same element type is never
  produced.
\<close>

theorem same_type_copy_does_not_build:
  "construct True Lvalue = Ill_formed ''use of deleted function ndarray(const ndarray&)''
   \<and> copy_assign = Ill_formed ''use of deleted function ndarray(const ndarray&)''"
  by (simp add: construct_def copy_assign_def select_ctor_def then_build_def)

section \<open>The two states of an array\<close>








end
